theory Spec2Isabelle
  imports Complex_Main "HOL-Library.Sublist"
begin

section \<open>Values, errors and Python built-ins\<close>

text \<open>
  A cell of the CSV frame, a dictionary value of the forms layer and a statement
  parameter are Python objects.  \<open>PNone\<close> is \<open>None\<close> (SQL NULL), \<open>PNaN\<close> is the float
  NaN that pandas puts in an empty cell, \<open>PStr\<close> is a \<open>str\<close> and \<open>PInt\<close> an \<open>int\<close>.
  The CSV is decoded as cp1252, a single-byte encoding, so a \<open>str\<close> read from it is
  the sequence of its bytes: \<open>string\<close>.  A character outside cp1252 (the rupee sign of
  the spec's example) is written as the bytes of its UTF-8 encoding, none of which is
  an ASCII digit or a dot.
\<close>

datatype pyval = PNone | PNaN | PStr string | PInt int

datatype error =
    ValueError | KeyError | TypeError
  | DataError | NotNullViolation | UniqueViolation | ForeignKeyViolation

text \<open>
  A Python \<open>float\<close> that \<open>float()\<close> returns for an unsigned decimal numeral:
  \<open>Finite v\<close> stands for the double nearest to the rational \<open>v\<close> (the rounding of the
  mantissa is not modelled), \<open>Infinity\<close> for \<open>inf\<close>.
\<close>

datatype py_float = Finite rat | Infinity



text \<open>\<open>pd.isna\<close> and \<open>pd.notna\<close> on a scalar.\<close>

definition isna :: "pyval \<Rightarrow> bool" where
  "isna v = (v = PNone \<or> v = PNaN)"

definition notna :: "pyval \<Rightarrow> bool" where
  "notna v = (\<not> isna v)"

text \<open>The regular expression class \<open>\d\<close> on a cp1252 string, and the dot.\<close>

definition is_digit :: "char \<Rightarrow> bool" where
  "is_digit c = (c \<in> set ''0123456789'')"

definition is_dot :: "char \<Rightarrow> bool" where
  "is_dot c = (c = CHR ''.'')"

definition digit_value :: "char \<Rightarrow> nat" where
  "digit_value c = of_char c - 48"

definition nat_of_digits :: "string \<Rightarrow> nat" where
  "nat_of_digits s = foldl (\<lambda>a c. 10 * a + digit_value c) 0 s"

text \<open>\<open>str()\<close> of a value: the decimal rendering of an \<open>int\<close>.\<close>

definition digit_char :: "nat \<Rightarrow> char" where
  "digit_char k = ''0123456789'' ! k"

fun digits_of_nat :: "nat \<Rightarrow> string" where
  "digits_of_nat n =
     (if n < 10 then [digit_char n]
      else digits_of_nat (n div 10) @ [digit_char (n mod 10)])"

declare digits_of_nat.simps [simp del]

definition py_str :: "pyval \<Rightarrow> string" where
  "py_str v =
     (case v of
        PNone \<Rightarrow> ''None''
      | PNaN \<Rightarrow> ''nan''
      | PStr s \<Rightarrow> s
      | PInt i \<Rightarrow> (if i < 0 then CHR ''-'' # digits_of_nat (nat (- i)) else digits_of_nat (nat i)))"

text \<open>
  \<open>float()\<close> on a string of digits and dots, the only strings \<open>parse_price\<close> passes
  to it.  Such a string is a float literal when it has at most one dot and at least
  one digit (\<open>''5.''\<close> and \<open>''.5''\<close> are literals, \<open>''.''\<close> and \<open>''1.2.3''\<close> raise
  \<open>ValueError\<close>).  The conversion rounds to nearest, ties to even: the largest
  double is \<open>2^1024 - 2^971\<close>, and every value from \<open>2^1024 - 2^970\<close> on becomes \<open>inf\<close>.
\<close>

definition int_part :: "string \<Rightarrow> string" where
  "int_part s = takeWhile (\<lambda>c. \<not> is_dot c) s"

definition frac_part :: "string \<Rightarrow> string" where
  "frac_part s = drop 1 (dropWhile (\<lambda>c. \<not> is_dot c) s)"

definition decimal_value :: "string \<Rightarrow> rat" where
  "decimal_value s =
     of_nat (nat_of_digits (int_part s @ frac_part s)) / 10 ^ length (frac_part s)"

definition overflow_threshold :: rat where
  "overflow_threshold = 2 ^ 1024 - 2 ^ 970"

definition to_double :: "rat \<Rightarrow> py_float" where
  "to_double v = (if overflow_threshold \<le> v then Infinity else Finite v)"

definition float_literal :: "string \<Rightarrow> bool" where
  "float_literal s = (length (filter is_dot s) \<le> 1 \<and> list_ex is_digit s)"

definition py_float :: "string \<Rightarrow> error + py_float" where
  "py_float s = (if float_literal s then Inr (to_double (decimal_value s)) else Inl ValueError)"

section \<open>The price parser\<close>

text \<open>\<open>re.sub(r'[^\d.]', '', price_str)\<close>: keep the digits and the dots.\<close>

definition strip_non_numeric :: "string \<Rightarrow> string" where
  "strip_non_numeric s = filter (\<lambda>c. is_digit c \<or> is_dot c) s"

text \<open>
  \<open>MobileDataImporter.parse_price\<close>.  \<open>Inr None\<close> is the return value \<open>None\<close>; only a
  \<open>ValueError\<close> of \<open>float()\<close> is caught, any other exception would propagate as \<open>Inl\<close>.
\<close>

definition parse_price :: "pyval \<Rightarrow> error + py_float option" where
  "parse_price price_str =
     (if isna price_str \<or> price_str = PStr [] then Inr None
      else
        let price_clean = strip_non_numeric (py_str price_str) in
        if price_clean = [] then Inr None
        else (case py_float price_clean of
                Inr x \<Rightarrow> Inr (Some x)
              | Inl e \<Rightarrow> (if e = ValueError then Inr None else Inl e)))"

section \<open>The relational store\<close>

text \<open>
  Modelled from the spec: the schema of the store, which is not among the sources (they
  hold the text of the statements only).  The tables are lists of rows in insertion
  order.  Company and processor names are unique, a model has a required company and
  an optional processor, there is at most one price per (model, region), foreign keys
  lead from models to companies and processors and from prices to models and regions,
  and deletion cascades from a company to its models and from a model to its prices.
  Each statement below is the statement of the sources with the effect it has on
  these tables.
\<close>

record specs =
  mobile_weight :: pyval
  ram :: pyval
  front_camera :: pyval
  back_camera :: pyval
  battery_capacity :: pyval
  screen_size :: pyval
  launched_year :: pyval

record model_row =
  m_id :: nat
  m_name :: string
  m_company_id :: nat
  m_processor_id :: "nat option"
  m_specs :: specs

record price_row =
  p_id :: nat
  p_model_id :: nat
  p_region_id :: nat
  p_price :: py_float

record database =
  companies :: "(nat \<times> string) list"
  processors :: "(nat \<times> string) list"
  regions :: "(nat \<times> string) list"
  models :: "model_row list"
  prices :: "price_row list"

text \<open>
  A cursor sees the tables of the open transaction.  The identity sequences are not
  transactional: a rollback does not give an identity back.  \<open>executed\<close> counts the
  statements sent to the store.
\<close>

record cursor =
  db :: database
  company_seq :: nat
  processor_seq :: nat
  model_seq :: nat
  price_seq :: nat
  executed :: nat

text \<open>
  A psycopg2 connection without autocommit: \<open>committed\<close> is what is durable, the
  cursor holds the pending tables; \<open>commit\<close> makes them durable, \<open>rollback\<close> discards
  everything since the last commit.
\<close>

record connection =
  committed :: database
  cur :: cursor

definition commit :: "connection \<Rightarrow> connection" where
  "commit c = c\<lparr>committed := db (cur c)\<rparr>"

definition rollback :: "connection \<Rightarrow> connection" where
  "rollback c = c\<lparr>cur := (cur c)\<lparr>db := committed c\<rparr>\<rparr>"

definition tick :: "cursor \<Rightarrow> cursor" where
  "tick c = c\<lparr>executed := Suc (executed c)\<rparr>"

text \<open>
  Modelled from the spec: the text a value takes in a name column (\<open>None\<close> is NULL),
  and the comparison of a name column with a parameter, which the store answers for
  a string, answers with no row for NULL and refuses for a number.
\<close>

definition sql_text :: "pyval \<Rightarrow> string option" where
  "sql_text v =
     (case v of PNone \<Rightarrow> None | PNaN \<Rightarrow> Some ''NaN'' | PStr s \<Rightarrow> Some s | PInt i \<Rightarrow> Some (py_str (PInt i)))"

definition find_id :: "string \<Rightarrow> (nat \<times> string) list \<Rightarrow> nat option" where
  "find_id name rows = map_option fst (find (\<lambda>r. snd r = name) rows)"

definition select_by_name ::
  "(database \<Rightarrow> (nat \<times> string) list) \<Rightarrow> pyval \<Rightarrow> cursor \<Rightarrow> (error + nat option) \<times> cursor" where
  "select_by_name table name c =
     (case name of
        PStr s \<Rightarrow> (Inr (find_id s (table (db c))), tick c)
      | PNone \<Rightarrow> (Inr None, tick c)
      | PNaN \<Rightarrow> (Inl DataError, tick c)
      | PInt i \<Rightarrow> (Inl DataError, tick c))"

text \<open>\<open>SELECT company_id FROM companies WHERE company_name = %s\<close>, then \<open>fetchone()\<close>.\<close>

definition select_company_id :: "pyval \<Rightarrow> cursor \<Rightarrow> (error + nat option) \<times> cursor" where
  "select_company_id name c = select_by_name companies name c"

text \<open>\<open>SELECT processor_id FROM processors WHERE processor_name = %s\<close>, then \<open>fetchone()\<close>.\<close>

definition select_processor_id :: "pyval \<Rightarrow> cursor \<Rightarrow> (error + nat option) \<times> cursor" where
  "select_processor_id name c = select_by_name processors name c"

text \<open>
  Modelled from the spec: a company name is required and unique, and the identity comes
  from the table's sequence.  The statement is
  \<open>INSERT INTO companies (company_name) VALUES (%s) RETURNING company_id\<close>.
\<close>

definition insert_company :: "pyval \<Rightarrow> cursor \<Rightarrow> (error + nat) \<times> cursor" where
  "insert_company name c =
     (case sql_text name of
        None \<Rightarrow> (Inl NotNullViolation, tick c)
      | Some s \<Rightarrow>
          if s \<in> snd ` set (companies (db c)) then (Inl UniqueViolation, tick c)
          else (Inr (company_seq c),
                tick (c\<lparr>db := (db c)\<lparr>companies := companies (db c) @ [(company_seq c, s)]\<rparr>,
                        company_seq := Suc (company_seq c)\<rparr>)))"

text \<open>
  Modelled from the spec: a processor name is required and unique, and the identity
  comes from the table's sequence.  The statement is
  \<open>INSERT INTO processors (processor_name) VALUES (%s) RETURNING processor_id\<close>.
\<close>

definition insert_processor :: "pyval \<Rightarrow> cursor \<Rightarrow> (error + nat) \<times> cursor" where
  "insert_processor name c =
     (case sql_text name of
        None \<Rightarrow> (Inl NotNullViolation, tick c)
      | Some s \<Rightarrow>
          if s \<in> snd ` set (processors (db c)) then (Inl UniqueViolation, tick c)
          else (Inr (processor_seq c),
                tick (c\<lparr>db := (db c)\<lparr>processors := processors (db c) @ [(processor_seq c, s)]\<rparr>,
                        processor_seq := Suc (processor_seq c)\<rparr>)))"

text \<open>\<open>SELECT region_id, region_name FROM regions\<close>, then \<open>fetchall()\<close>.\<close>

definition select_regions :: "cursor \<Rightarrow> (error + (nat \<times> string) list) \<times> cursor" where
  "select_regions c = (Inr (regions (db c)), tick c)"

text \<open>
  \<open>SELECT model_id FROM models WHERE model_name = %s AND company_id = %s\<close>, then
  \<open>fetchone()\<close>.
\<close>

definition select_model_id :: "pyval \<Rightarrow> nat \<Rightarrow> cursor \<Rightarrow> (error + nat option) \<times> cursor" where
  "select_model_id name company c =
     (case name of
        PStr s \<Rightarrow>
          (Inr (map_option m_id
                  (find (\<lambda>m. m_name m = s \<and> m_company_id m = company) (models (db c)))),
           tick c)
      | PNone \<Rightarrow> (Inr None, tick c)
      | PNaN \<Rightarrow> (Inl DataError, tick c)
      | PInt i \<Rightarrow> (Inl DataError, tick c))"

text \<open>
  Modelled from the spec: the checks of the store on a model's columns, which are a
  name, an existing company, and an existing processor when there is one.  The company
  parameter is a Python value: the forms layer passes \<open>None\<close> when no company is
  selected.
\<close>

definition check_model ::
  "database \<Rightarrow> pyval \<Rightarrow> pyval \<Rightarrow> nat option \<Rightarrow> error + (string \<times> nat)" where
  "check_model d name company processor =
     (case sql_text name of
        None \<Rightarrow> Inl NotNullViolation
      | Some s \<Rightarrow>
          (case company of
             PNone \<Rightarrow> Inl NotNullViolation
           | PNaN \<Rightarrow> Inl DataError
           | PStr t \<Rightarrow> Inl DataError
           | PInt i \<Rightarrow>
               if i < 0 \<or> nat i \<notin> fst ` set (companies d) then Inl ForeignKeyViolation
               else (case processor of
                       None \<Rightarrow> Inr (s, nat i)
                     | Some p \<Rightarrow>
                         if p \<in> fst ` set (processors d) then Inr (s, nat i)
                         else Inl ForeignKeyViolation)))"

text \<open>\<open>INSERT INTO models (...) VALUES (...) RETURNING model_id\<close>.\<close>

definition insert_model ::
  "pyval \<Rightarrow> pyval \<Rightarrow> nat option \<Rightarrow> specs \<Rightarrow> cursor \<Rightarrow> (error + nat) \<times> cursor" where
  "insert_model name company processor sp c =
     (case check_model (db c) name company processor of
        Inl e \<Rightarrow> (Inl e, tick c)
      | Inr (s, cid) \<Rightarrow>
          (Inr (model_seq c),
           tick (c\<lparr>db := (db c)\<lparr>models := models (db c) @
                     [\<lparr>m_id = model_seq c, m_name = s, m_company_id = cid,
                       m_processor_id = processor, m_specs = sp\<rparr>]\<rparr>,
                   model_seq := Suc (model_seq c)\<rparr>)))"

text \<open>\<open>UPDATE models SET ... WHERE model_id = %s\<close>: no row, no check and no change.\<close>

definition update_model_row ::
  "nat \<Rightarrow> pyval \<Rightarrow> pyval \<Rightarrow> nat option \<Rightarrow> specs \<Rightarrow> cursor \<Rightarrow> (error + unit) \<times> cursor" where
  "update_model_row mid name company processor sp c =
     (if mid \<notin> m_id ` set (models (db c)) then (Inr (), tick c)
      else
        (case check_model (db c) name company processor of
           Inl e \<Rightarrow> (Inl e, tick c)
         | Inr (s, cid) \<Rightarrow>
             (Inr (),
              tick (c\<lparr>db := (db c)\<lparr>models :=
                      map (\<lambda>m. if m_id m = mid
                                then m\<lparr>m_name := s, m_company_id := cid,
                                       m_processor_id := processor, m_specs := sp\<rparr>
                                else m)
                          (models (db c))\<rparr>\<rparr>))))"

text \<open>
  Modelled from the spec: the deletion of a model cascades to its prices.  The
  statement is \<open>DELETE FROM models WHERE model_id = %s\<close>.
\<close>

definition delete_model_row :: "nat \<Rightarrow> cursor \<Rightarrow> (error + unit) \<times> cursor" where
  "delete_model_row mid c =
     (Inr (),
      tick (c\<lparr>db := (db c)\<lparr>models := filter (\<lambda>m. m_id m \<noteq> mid) (models (db c)),
                            prices := filter (\<lambda>p. p_model_id p \<noteq> mid) (prices (db c))\<rparr>\<rparr>))"

text \<open>
  Modelled from the spec: the new name is required and must not be the name of another
  company.  The statement is
  \<open>UPDATE companies SET company_name = %s WHERE company_id = %s\<close>.
\<close>

definition update_company_row :: "nat \<Rightarrow> pyval \<Rightarrow> cursor \<Rightarrow> (error + unit) \<times> cursor" where
  "update_company_row cid name c =
     (if cid \<notin> fst ` set (companies (db c)) then (Inr (), tick c)
      else
        (case sql_text name of
           None \<Rightarrow> (Inl NotNullViolation, tick c)
         | Some s \<Rightarrow>
             if list_ex (\<lambda>r. snd r = s \<and> fst r \<noteq> cid) (companies (db c))
             then (Inl UniqueViolation, tick c)
             else (Inr (),
                   tick (c\<lparr>db := (db c)\<lparr>companies :=
                           map (\<lambda>r. if fst r = cid then (cid, s) else r) (companies (db c))\<rparr>\<rparr>))))"

text \<open>
  Modelled from the spec: the deletion of a company cascades to its models and to
  their prices.  The statement is \<open>DELETE FROM companies WHERE company_id = %s\<close>.
\<close>

definition delete_company_row :: "nat \<Rightarrow> cursor \<Rightarrow> (error + unit) \<times> cursor" where
  "delete_company_row cid c =
     (let gone = map m_id (filter (\<lambda>m. m_company_id m = cid) (models (db c))) in
      (Inr (),
       tick (c\<lparr>db := (db c)\<lparr>companies := filter (\<lambda>r. fst r \<noteq> cid) (companies (db c)),
                             models := filter (\<lambda>m. m_company_id m \<noteq> cid) (models (db c)),
                             prices := filter (\<lambda>p. p_model_id p \<notin> set gone) (prices (db c))\<rparr>\<rparr>)))"

text \<open>\<open>SELECT price_id FROM prices WHERE model_id = %s AND region_id = %s\<close>, then \<open>fetchone()\<close>.\<close>

definition select_price_id :: "nat \<Rightarrow> nat \<Rightarrow> cursor \<Rightarrow> (error + nat option) \<times> cursor" where
  "select_price_id mid rid c =
     (Inr (map_option p_id
             (find (\<lambda>p. p_model_id p = mid \<and> p_region_id p = rid) (prices (db c)))),
      tick c)"

definition has_price :: "database \<Rightarrow> nat \<Rightarrow> nat \<Rightarrow> bool" where
  "has_price d mid rid = list_ex (\<lambda>p. p_model_id p = mid \<and> p_region_id p = rid) (prices d)"

definition price_refs_ok :: "database \<Rightarrow> nat \<Rightarrow> nat \<Rightarrow> bool" where
  "price_refs_ok d mid rid = (mid \<in> m_id ` set (models d) \<and> rid \<in> fst ` set (regions d))"

definition append_price :: "nat \<Rightarrow> nat \<Rightarrow> py_float \<Rightarrow> cursor \<Rightarrow> cursor" where
  "append_price mid rid amount c =
     c\<lparr>db := (db c)\<lparr>prices := prices (db c) @
            [\<lparr>p_id = price_seq c, p_model_id = mid, p_region_id = rid, p_price = amount\<rparr>]\<rparr>,
       price_seq := Suc (price_seq c)\<rparr>"

text \<open>
  Modelled from the spec: the pair (model, region) of a price is unique, and its model
  and its region exist.  The statement is
  \<open>INSERT INTO prices (model_id, region_id, price) VALUES (%s, %s, %s)\<close>.
\<close>

definition insert_price :: "nat \<Rightarrow> nat \<Rightarrow> py_float \<Rightarrow> cursor \<Rightarrow> (error + unit) \<times> cursor" where
  "insert_price mid rid amount c =
     (if has_price (db c) mid rid then (Inl UniqueViolation, tick c)
      else if price_refs_ok (db c) mid rid then (Inr (), tick (append_price mid rid amount c))
      else (Inl ForeignKeyViolation, tick c))"

text \<open>
  Modelled from the spec: the model and the region of an inserted price exist.  The
  statement is \<open>INSERT INTO prices ... ON CONFLICT (model_id, region_id) DO UPDATE SET
  price = EXCLUDED.price\<close>: a row of the pair takes the new amount instead of the insert.
\<close>

definition upsert_price :: "nat \<Rightarrow> nat \<Rightarrow> py_float \<Rightarrow> cursor \<Rightarrow> (error + unit) \<times> cursor" where
  "upsert_price mid rid amount c =
     (if has_price (db c) mid rid
      then (Inr (),
            tick (c\<lparr>db := (db c)\<lparr>prices :=
                    map (\<lambda>p. if p_model_id p = mid \<and> p_region_id p = rid
                              then p\<lparr>p_price := amount\<rparr> else p)
                        (prices (db c))\<rparr>\<rparr>))
      else if price_refs_ok (db c) mid rid then (Inr (), tick (append_price mid rid amount c))
      else (Inl ForeignKeyViolation, tick c))"

text \<open>\<open>DELETE FROM prices WHERE price_id = %s\<close>.\<close>

definition delete_price_row :: "nat \<Rightarrow> cursor \<Rightarrow> (error + unit) \<times> cursor" where
  "delete_price_row pid c =
     (Inr (), tick (c\<lparr>db := (db c)\<lparr>prices := filter (\<lambda>p. p_id p \<noteq> pid) (prices (db c))\<rparr>\<rparr>))"

section \<open>Sequencing statements that may raise\<close>

text \<open>
  A method body runs on a state and either returns a value or raises; the changes it
  made before raising stay in the state.
\<close>

definition ret :: "'a \<Rightarrow> 's \<Rightarrow> (error + 'a) \<times> 's" where
  "ret x s = (Inr x, s)"

definition raise :: "error \<Rightarrow> 's \<Rightarrow> (error + 'a) \<times> 's" where
  "raise e s = (Inl e, s)"

definition and_then ::
  "('s \<Rightarrow> (error + 'a) \<times> 's) \<Rightarrow> ('a \<Rightarrow> 's \<Rightarrow> (error + 'b) \<times> 's) \<Rightarrow> 's \<Rightarrow> (error + 'b) \<times> 's" where
  "and_then m f s = (case m s of (Inl e, s') \<Rightarrow> (Inl e, s') | (Inr x, s') \<Rightarrow> f x s')"

text \<open>Subscription \<open>d[k]\<close> and \<open>d.get(k)\<close> of a dictionary, and Python truthiness.\<close>

definition getitem :: "('k \<rightharpoonup> 'v) \<Rightarrow> 'k \<Rightarrow> 's \<Rightarrow> (error + 'v) \<times> 's" where
  "getitem d k = (case d k of None \<Rightarrow> raise KeyError | Some v \<Rightarrow> ret v)"

definition dict_get :: "('k \<rightharpoonup> pyval) \<Rightarrow> 'k \<Rightarrow> pyval" where
  "dict_get d k = (case d k of None \<Rightarrow> PNone | Some v \<Rightarrow> v)"

definition truthy :: "pyval \<Rightarrow> bool" where
  "truthy v = (case v of PNone \<Rightarrow> False | PNaN \<Rightarrow> True | PStr s \<Rightarrow> s \<noteq> [] | PInt i \<Rightarrow> i \<noteq> 0)"

section \<open>The Catalog Store (database.py)\<close>

text \<open>
  \<open>Database.get_cursor\<close>: the body of the \<open>with\<close> block runs on a cursor of the one
  connection; when it returns the connection commits, when it raises the connection
  rolls back and the exception is raised again.
\<close>

definition get_cursor ::
  "(cursor \<Rightarrow> (error + 'a) \<times> cursor) \<Rightarrow> connection \<Rightarrow> (error + 'a) \<times> connection" where
  "get_cursor body c =
     (case body (cur c) of
        (Inr x, c') \<Rightarrow> (Inr x, commit (c\<lparr>cur := c'\<rparr>))
      | (Inl e, c') \<Rightarrow> (Inl e, rollback (c\<lparr>cur := c'\<rparr>)))"

definition add_company :: "pyval \<Rightarrow> connection \<Rightarrow> (error + nat) \<times> connection" where
  "add_company company_name = get_cursor (insert_company company_name)"

definition update_company :: "nat \<Rightarrow> pyval \<Rightarrow> connection \<Rightarrow> (error + unit) \<times> connection" where
  "update_company cid company_name = get_cursor (update_company_row cid company_name)"

definition delete_company :: "nat \<Rightarrow> connection \<Rightarrow> (error + unit) \<times> connection" where
  "delete_company cid = get_cursor (delete_company_row cid)"

text \<open>\<open>Database.get_or_create_processor\<close>: one \<open>with\<close> block of its own.\<close>

definition db_get_or_create_processor :: "pyval \<Rightarrow> connection \<Rightarrow> (error + nat) \<times> connection" where
  "db_get_or_create_processor processor_name =
     get_cursor
       (and_then (select_processor_id processor_name)
          (\<lambda>result. case result of
                       Some pid \<Rightarrow> ret pid
                     | None \<Rightarrow> insert_processor processor_name))"

text \<open>
  The first lines of \<open>add_model\<close> and \<open>update_model\<close>: the processor is resolved by a
  call of \<open>get_or_create_processor\<close> before the method opens its own cursor.
\<close>

definition resolve_processor ::
  "(string \<rightharpoonup> pyval) \<Rightarrow> connection \<Rightarrow> (error + nat option) \<times> connection" where
  "resolve_processor model_data =
     (if truthy (dict_get model_data ''processor_name'')
      then and_then (getitem model_data ''processor_name'')
             (\<lambda>name. and_then (db_get_or_create_processor name) (\<lambda>pid. ret (Some pid)))
      else ret None)"

definition specs_of :: "(string \<rightharpoonup> pyval) \<Rightarrow> specs" where
  "specs_of model_data =
     \<lparr>mobile_weight = dict_get model_data ''mobile_weight'',
      ram = dict_get model_data ''ram'',
      front_camera = dict_get model_data ''front_camera'',
      back_camera = dict_get model_data ''back_camera'',
      battery_capacity = dict_get model_data ''battery_capacity'',
      screen_size = dict_get model_data ''screen_size'',
      launched_year = dict_get model_data ''launched_year''\<rparr>"

definition add_model :: "(string \<rightharpoonup> pyval) \<Rightarrow> connection \<Rightarrow> (error + nat) \<times> connection" where
  "add_model model_data =
     and_then (resolve_processor model_data)
       (\<lambda>processor_id.
          get_cursor
            (and_then (getitem model_data ''model_name'')
               (\<lambda>name. and_then (getitem model_data ''company_id'')
                  (\<lambda>company. insert_model name company processor_id (specs_of model_data)))))"

definition update_model ::
  "nat \<Rightarrow> (string \<rightharpoonup> pyval) \<Rightarrow> connection \<Rightarrow> (error + unit) \<times> connection" where
  "update_model mid model_data =
     and_then (resolve_processor model_data)
       (\<lambda>processor_id.
          get_cursor
            (and_then (getitem model_data ''model_name'')
               (\<lambda>name. and_then (getitem model_data ''company_id'')
                  (\<lambda>company.
                     update_model_row mid name company processor_id (specs_of model_data)))))"

definition delete_model :: "nat \<Rightarrow> connection \<Rightarrow> (error + unit) \<times> connection" where
  "delete_model mid = get_cursor (delete_model_row mid)"

definition add_or_update_price ::
  "nat \<Rightarrow> nat \<Rightarrow> py_float \<Rightarrow> connection \<Rightarrow> (error + unit) \<times> connection" where
  "add_or_update_price mid rid amount = get_cursor (upsert_price mid rid amount)"

definition delete_price :: "nat \<Rightarrow> connection \<Rightarrow> (error + unit) \<times> connection" where
  "delete_price pid = get_cursor (delete_price_row pid)"

section \<open>The importer (scripts/import_data.py)\<close>

text \<open>
  The state of a \<open>MobileDataImporter\<close> during \<open>import_data\<close>: its connection (with the
  one cursor), its three caches, the two counters that are locals of \<open>import_data\<close>,
  and the records that \<open>logger.error\<close> wrote (row index and exception).
\<close>

record importer =
  conn :: connection
  company_cache :: "pyval \<rightharpoonup> nat"
  processor_cache :: "pyval \<rightharpoonup> nat"
  region_cache :: "string \<rightharpoonup> nat"
  models_count :: nat
  prices_count :: nat
  error_log :: "(nat \<times> error) list"

definition new_importer :: "connection \<Rightarrow> importer" where
  "new_importer c =
     \<lparr>conn = c, company_cache = Map.empty, processor_cache = Map.empty,
      region_cache = Map.empty, models_count = 0, prices_count = 0, error_log = []\<rparr>"

text \<open>\<open>self.cursor.execute(...)\<close> with the fetch that follows it.\<close>

definition execute :: "(cursor \<Rightarrow> (error + 'a) \<times> cursor) \<Rightarrow> importer \<Rightarrow> (error + 'a) \<times> importer" where
  "execute stmt st =
     (case stmt (cur (conn st)) of (r, c') \<Rightarrow> (r, st\<lparr>conn := (conn st)\<lparr>cur := c'\<rparr>\<rparr>))"

definition get_or_create_company :: "pyval \<Rightarrow> importer \<Rightarrow> (error + nat) \<times> importer" where
  "get_or_create_company company_name st =
     (case company_cache st company_name of
        Some cid \<Rightarrow> (Inr cid, st)
      | None \<Rightarrow>
          and_then (execute (select_company_id company_name))
            (\<lambda>result.
               and_then (case result of
                           Some cid \<Rightarrow> ret cid
                         | None \<Rightarrow> execute (insert_company company_name))
                 (\<lambda>cid s. (Inr cid, s\<lparr>company_cache := (company_cache s)(company_name \<mapsto> cid)\<rparr>)))
            st)"

definition get_or_create_processor :: "pyval \<Rightarrow> importer \<Rightarrow> (error + nat option) \<times> importer" where
  "get_or_create_processor processor_name st =
     (if isna processor_name \<or> processor_name = PStr [] then (Inr None, st)
      else
        (case processor_cache st processor_name of
           Some pid \<Rightarrow> (Inr (Some pid), st)
         | None \<Rightarrow>
             and_then (execute (select_processor_id processor_name))
               (\<lambda>result.
                  and_then (case result of
                              Some pid \<Rightarrow> ret pid
                            | None \<Rightarrow> execute (insert_processor processor_name))
                    (\<lambda>pid s. (Inr (Some pid),
                               s\<lparr>processor_cache := (processor_cache s)(processor_name \<mapsto> pid)\<rparr>)))
               st))"

definition load_regions :: "importer \<Rightarrow> (error + unit) \<times> importer" where
  "load_regions =
     and_then (execute select_regions)
       (\<lambda>rows s. (Inr (),
                   s\<lparr>region_cache := foldl (\<lambda>m r. m(snd r \<mapsto> fst r)) (region_cache s) rows\<rparr>))"

text \<open>
  \<open>int()\<close> of a cell.  On a string: surrounding white space, an optional sign, then
  digits, where single underscores may separate digits; anything else raises
  \<open>ValueError\<close>.
\<close>

definition is_space :: "char \<Rightarrow> bool" where
  "is_space c = (of_char c \<in> set [9, 10, 11, 12, 13, 28, 29, 30, 31, 32, 160 :: nat])"

definition strip_space :: "string \<Rightarrow> string" where
  "strip_space s = rev (dropWhile is_space (rev (dropWhile is_space s)))"

fun no_double_underscore :: "string \<Rightarrow> bool" where
  "no_double_underscore (a # b # s) =
     (\<not> (a = CHR ''_'' \<and> b = CHR ''_'') \<and> no_double_underscore (b # s))"
| "no_double_underscore s = True"

definition int_digits :: "string \<Rightarrow> bool" where
  "int_digits s =
     (s \<noteq> [] \<and> is_digit (hd s) \<and> is_digit (last s) \<and>
      list_all (\<lambda>c. is_digit c \<or> c = CHR ''_'') s \<and> no_double_underscore s)"

definition int_of_string :: "string \<Rightarrow> error + int" where
  "int_of_string s =
     (let t = strip_space s;
          neg = (t \<noteq> [] \<and> hd t = CHR ''-'');
          body = (if t \<noteq> [] \<and> (hd t = CHR ''-'' \<or> hd t = CHR ''+'') then tl t else t);
          n = int (nat_of_digits (filter is_digit body))
      in if int_digits body then Inr (if neg then - n else n) else Inl ValueError)"

definition py_int :: "pyval \<Rightarrow> error + int" where
  "py_int v =
     (case v of
        PNone \<Rightarrow> Inl TypeError
      | PNaN \<Rightarrow> Inl ValueError
      | PStr s \<Rightarrow> int_of_string s
      | PInt i \<Rightarrow> Inr i)"

text \<open>
  The parameters of the model insert that come from the row, evaluated in the order
  of the tuple: \<open>row['Model Name']\<close>, then \<open>row[c] if pd.notna(row[c]) else None\<close> for
  the six text columns, then \<open>int(row['Launched Year'])\<close> under the same guard.  A
  missing column raises \<open>KeyError\<close>, a year that is no integer raises \<open>ValueError\<close>.
\<close>

definition subscript :: "('k \<rightharpoonup> 'v) \<Rightarrow> 'k \<Rightarrow> error + 'v" where
  "subscript d k = (case d k of None \<Rightarrow> Inl KeyError | Some v \<Rightarrow> Inr v)"

definition or_raise :: "error + 'a \<Rightarrow> ('a \<Rightarrow> error + 'b) \<Rightarrow> error + 'b" where
  "or_raise x f = (case x of Inl e \<Rightarrow> Inl e | Inr v \<Rightarrow> f v)"

definition nullable :: "pyval \<Rightarrow> pyval" where
  "nullable v = (if notna v then v else PNone)"

definition nullable_int :: "pyval \<Rightarrow> error + pyval" where
  "nullable_int v =
     (if notna v then (case py_int v of Inl e \<Rightarrow> Inl e | Inr i \<Rightarrow> Inr (PInt i)) else Inr PNone)"

definition model_params :: "(string \<rightharpoonup> pyval) \<Rightarrow> error + (pyval \<times> specs)" where
  "model_params row =
     or_raise (subscript row ''Model Name'') (\<lambda>name.
     or_raise (subscript row ''Mobile Weight'') (\<lambda>weight.
     or_raise (subscript row ''RAM'') (\<lambda>r.
     or_raise (subscript row ''Front Camera'') (\<lambda>front.
     or_raise (subscript row ''Back Camera'') (\<lambda>back.
     or_raise (subscript row ''Battery Capacity'') (\<lambda>battery.
     or_raise (subscript row ''Screen Size'') (\<lambda>screen.
     or_raise (subscript row ''Launched Year'') (\<lambda>year_cell.
     or_raise (nullable_int year_cell) (\<lambda>year.
       Inr (name,
            \<lparr>mobile_weight = nullable weight, ram = nullable r, front_camera = nullable front,
             back_camera = nullable back, battery_capacity = nullable battery,
             screen_size = nullable screen, launched_year = year\<rparr>))))))))))"

text \<open>The \<open>else\<close> branch of the model check: the parameters, the insert, the counter.\<close>

definition insert_new_model ::
  "(string \<rightharpoonup> pyval) \<Rightarrow> nat \<Rightarrow> nat option \<Rightarrow> importer \<Rightarrow> (error + nat) \<times> importer" where
  "insert_new_model row company_id processor_id =
     and_then (\<lambda>s. (model_params row, s)) (\<lambda>params.
     and_then (execute (insert_model (fst params) (PInt (int company_id)) processor_id (snd params)))
       (\<lambda>model_id s. (Inr model_id, s\<lparr>models_count := models_count s + 1\<rparr>)))"

definition price_columns :: "(string \<times> string) list" where
  "price_columns =
     [(''Pakistan'', ''Launched Price (Pakistan)''),
      (''India'', ''Launched Price (India)''),
      (''China'', ''Launched Price (China)''),
      (''USA'', ''Launched Price (USA)''),
      (''Dubai'', ''Launched Price (Dubai)'')]"

text \<open>One turn of the loop over \<open>price_columns\<close>.\<close>

definition import_price ::
  "(string \<rightharpoonup> pyval) \<Rightarrow> nat \<Rightarrow> string \<times> string \<Rightarrow> importer \<Rightarrow> (error + unit) \<times> importer" where
  "import_price row model_id rc =
     and_then (getitem row (snd rc)) (\<lambda>cell.
     and_then (\<lambda>s. (parse_price cell, s)) (\<lambda>price.
       case price of
         None \<Rightarrow> ret ()
       | Some amount \<Rightarrow>
           and_then (\<lambda>s. getitem (region_cache s) (fst rc) s) (\<lambda>region_id.
           and_then (execute (select_price_id model_id region_id)) (\<lambda>found.
             case found of
               Some pid \<Rightarrow> ret ()
             | None \<Rightarrow>
                 and_then (execute (insert_price model_id region_id amount))
                   (\<lambda>u s. (Inr (), s\<lparr>prices_count := prices_count s + 1\<rparr>))))))"

fun import_prices ::
  "(string \<rightharpoonup> pyval) \<Rightarrow> nat \<Rightarrow> (string \<times> string) list \<Rightarrow> importer \<Rightarrow> (error + unit) \<times> importer" where
  "import_prices row model_id [] = ret ()"
| "import_prices row model_id (rc # rcs) =
     and_then (import_price row model_id rc) (\<lambda>u. import_prices row model_id rcs)"

text \<open>The body of the \<open>try\<close> block for the row with index \<open>idx\<close>.\<close>

definition import_row_body ::
  "nat \<Rightarrow> (string \<rightharpoonup> pyval) \<Rightarrow> importer \<Rightarrow> (error + unit) \<times> importer" where
  "import_row_body idx row =
     and_then (getitem row ''Company Name'') (\<lambda>company_name.
     and_then (get_or_create_company company_name) (\<lambda>company_id.
     and_then (getitem row ''Processor'') (\<lambda>processor_name.
     and_then (get_or_create_processor processor_name) (\<lambda>processor_id.
     and_then (getitem row ''Model Name'') (\<lambda>name.
     and_then (execute (select_model_id name company_id)) (\<lambda>existing_model.
     and_then (case existing_model of
                 Some mid \<Rightarrow> ret mid
               | None \<Rightarrow> insert_new_model row company_id processor_id) (\<lambda>model_id.
     and_then (import_prices row model_id price_columns) (\<lambda>u.
       if (idx + 1) mod 100 = 0
       then (\<lambda>s. (Inr (), s\<lparr>conn := commit (conn s)\<rparr>))
       else ret ()))))))))"

text \<open>
  One turn of the loop over the rows: the \<open>try\<close> block, and the handler that logs the
  exception, rolls the connection back and continues.
\<close>

definition import_row :: "importer \<Rightarrow> nat \<times> (string \<rightharpoonup> pyval) \<Rightarrow> importer" where
  "import_row st ir =
     (case import_row_body (fst ir) (snd ir) st of
        (Inr u, s) \<Rightarrow> s
      | (Inl e, s) \<Rightarrow> s\<lparr>error_log := error_log s @ [(fst ir, e)], conn := rollback (conn s)\<rparr>)"

definition import_rows :: "nat \<Rightarrow> (string \<rightharpoonup> pyval) list \<Rightarrow> importer \<Rightarrow> importer" where
  "import_rows start rows st = foldl import_row st (zip [start ..< start + length rows] rows)"

text \<open>
  \<open>import_data\<close> on the rows that \<open>pd.read_csv\<close> returned: the regions are loaded, the
  counters start at zero, every row is processed, and the final commit follows.
\<close>

definition import_data :: "(string \<rightharpoonup> pyval) list \<Rightarrow> importer \<Rightarrow> (error + unit) \<times> importer" where
  "import_data rows =
     and_then load_regions
       (\<lambda>u s. let s1 = import_rows 0 rows (s\<lparr>models_count := 0, prices_count := 0\<rparr>)
              in (Inr (), s1\<lparr>conn := commit (conn s1)\<rparr>))"

section \<open>A seeded store and two listings\<close>

text \<open>
  The store as it is before a first import: the five regions are seeded, the other
  tables are empty, every sequence starts at 1, nothing is pending.
\<close>

definition seeded_db :: database where
  "seeded_db =
     \<lparr>companies = [], processors = [],
      regions = [(1, ''Pakistan''), (2, ''India''), (3, ''China''), (4, ''USA''), (5, ''Dubai'')],
      models = [], prices = []\<rparr>"

definition fresh_connection :: connection where
  "fresh_connection =
     \<lparr>committed = seeded_db,
      cur = \<lparr>db = seeded_db, company_seq = 1, processor_seq = 1, model_seq = 1,
             price_seq = 1, executed = 0\<rparr>\<rparr>"

text \<open>
  A row of the frame with every expected column: company, model, processor, launch
  year and the Pakistan price are given, the other cells are empty.
\<close>

definition listing :: "string \<Rightarrow> string \<Rightarrow> string \<Rightarrow> pyval \<Rightarrow> pyval \<Rightarrow> (string \<rightharpoonup> pyval)" where
  "listing company name processor year pakistan =
     map_of
       [(''Company Name'', PStr company), (''Model Name'', PStr name),
        (''Processor'', PStr processor), (''Mobile Weight'', PNaN), (''RAM'', PNaN),
        (''Front Camera'', PNaN), (''Back Camera'', PNaN), (''Battery Capacity'', PNaN),
        (''Screen Size'', PNaN), (''Launched Year'', year),
        (''Launched Price (Pakistan)'', pakistan), (''Launched Price (India)'', PNaN),
        (''Launched Price (China)'', PNaN), (''Launched Price (USA)'', PNaN),
        (''Launched Price (Dubai)'', PNaN)]"

definition good_row :: "string \<rightharpoonup> pyval" where
  "good_row = listing ''Acme'' ''X1'' ''Chip1'' (PStr ''2024'') (PStr ''PKR 10,000'')"

definition bad_row :: "string \<rightharpoonup> pyval" where
  "bad_row = listing ''Acme'' ''X2'' ''Chip1'' (PStr ''abc'') (PStr ''PKR 20,000'')"


text \<open>A store with one company and one model of it, and nothing pending.\<close>

definition stocked_db :: database where
  "stocked_db =
     seeded_db\<lparr>companies := [(1, ''Acme'')],
               models := [\<lparr>m_id = 1, m_name = ''X1'', m_company_id = 1, m_processor_id = None,
                           m_specs = \<lparr>mobile_weight = PNone, ram = PNone, front_camera = PNone,
                                      back_camera = PNone, battery_capacity = PNone,
                                      screen_size = PNone, launched_year = PNone\<rparr>\<rparr>]\<rparr>"

definition stocked_connection :: connection where
  "stocked_connection =
     \<lparr>committed = stocked_db,
      cur = \<lparr>db = stocked_db, company_seq = 2, processor_seq = 1, model_seq = 2,
             price_seq = 1, executed = 0\<rparr>\<rparr>"

section \<open>Vocabulary of the claims about the store and the importer\<close>

text \<open>A connection is clean when nothing is pending on it.\<close>

definition clean :: "connection \<Rightarrow> bool" where
  "clean c = (db (cur c) = committed c)"

text \<open>The pending and the durable tables of an importer.\<close>

definition pending :: "importer \<Rightarrow> database" where
  "pending st = db (cur (conn st))"

definition durable :: "importer \<Rightarrow> database" where
  "durable st = committed (conn st)"

text \<open>
  The keys by which the import recognises a model and a price, and the price rows of
  one (model, region) pair.
\<close>

definition model_key :: "model_row \<Rightarrow> string \<times> nat" where
  "model_key m = (m_name m, m_company_id m)"

definition price_key :: "price_row \<Rightarrow> nat \<times> nat" where
  "price_key p = (p_model_id p, p_region_id p)"

definition prices_of :: "database \<Rightarrow> nat \<Rightarrow> nat \<Rightarrow> price_row list" where
  "prices_of d mid rid = filter (\<lambda>p. price_key p = (mid, rid)) (prices d)"

text \<open>What the upsert does to a price row: a row of the pair takes the new amount.\<close>

definition overwrite :: "nat \<Rightarrow> nat \<Rightarrow> py_float \<Rightarrow> price_row \<Rightarrow> price_row" where
  "overwrite mid rid a p = (if price_key p = (mid, rid) then p\<lparr>p_price := a\<rparr> else p)"

text \<open>
  A table has only net-new rows with respect to an older one when the older table is
  its beginning, row for row, and every row after that has a key that no older row has.
\<close>

definition net_new :: "('r \<Rightarrow> 'k) \<Rightarrow> 'r list \<Rightarrow> 'r list \<Rightarrow> bool" where
  "net_new key old new =
     (prefix old new \<and> list_all (\<lambda>r. key r \<notin> key ` set old) (drop (length old) new))"

definition only_net_new :: "database \<Rightarrow> database \<Rightarrow> bool" where
  "only_net_new d d' =
     (net_new model_key (models d) (models d') \<and> net_new price_key (prices d) (prices d'))"

text \<open>
  The caches grow from one importer state to another when every entry of the older
  state is an entry of the newer one; the counters grow when neither is smaller.
\<close>

definition caches_grow :: "importer \<Rightarrow> importer \<Rightarrow> bool" where
  "caches_grow s s' =
     (company_cache s \<subseteq>\<^sub>m company_cache s' \<and> processor_cache s \<subseteq>\<^sub>m processor_cache s')"

definition counters_grow :: "importer \<Rightarrow> importer \<Rightarrow> bool" where
  "counters_grow s s' =
     (models_count s \<le> models_count s' \<and> prices_count s \<le> prices_count s')"

text \<open>
  Progress inside a \<open>try\<close> block, before any commit: the caches and the counters grow,
  the region cache, the log and the durable tables stay, and the pending tables get
  only net-new models and prices.
\<close>

definition advances :: "importer \<Rightarrow> importer \<Rightarrow> bool" where
  "advances s s' =
     (caches_grow s s' \<and> counters_grow s s' \<and> region_cache s' = region_cache s \<and>
      error_log s' = error_log s \<and> durable s' = durable s \<and>
      only_net_new (pending s) (pending s'))"

text \<open>The durable tables are a beginning of the pending ones, with only net-new rows after.\<close>

definition pending_extends_durable :: "importer \<Rightarrow> bool" where
  "pending_extends_durable s = only_net_new (durable s) (pending s)"

text \<open>
  What the forms layer passes to \<open>add_model\<close> when a model name and a processor name
  are typed in and no company can be selected.
\<close>

definition form_without_company :: "string \<rightharpoonup> pyval" where
  "form_without_company =
     map_of
       [(''company_id'', PNone), (''model_name'', PStr ''X1''), (''mobile_weight'', PNone),
        (''ram'', PNone), (''front_camera'', PNone), (''back_camera'', PNone),
        (''processor_name'', PStr ''Chip1''), (''battery_capacity'', PNone),
        (''screen_size'', PNone), (''launched_year'', PInt 2024)]"

section \<open>Vocabulary of the claims about the price parser\<close>




section \<open>Evaluation of the store and of the facade\<close>

lemmas store_eval = commit_def rollback_def tick_def sql_text_def find_id_def select_by_name_def
  select_company_id_def select_processor_id_def insert_company_def insert_processor_def
  select_regions_def select_model_id_def check_model_def insert_model_def
  select_price_id_def has_price_def price_refs_ok_def append_price_def insert_price_def
  upsert_price_def
  ret_def raise_def and_then_def getitem_def dict_get_def truthy_def

lemmas facade_eval = get_cursor_def add_company_def db_get_or_create_processor_def
  resolve_processor_def specs_of_def add_model_def update_model_def add_or_update_price_def
  seeded_db_def fresh_connection_def form_without_company_def

lemmas import_eval = new_importer_def execute_def get_or_create_company_def
  get_or_create_processor_def load_regions_def is_space_def strip_space_def int_digits_def
  int_of_string_def py_int_def subscript_def or_raise_def nullable_def nullable_int_def
  model_params_def insert_new_model_def
  price_columns_def import_price_def import_row_body_def import_row_def import_rows_def
  import_data_def listing_def good_row_def bad_row_def

section \<open>Properties of the price parser\<close>

lemmas parse_eval = parse_price_def isna_def notna_def py_str_def strip_non_numeric_def is_digit_def is_dot_def
      py_float_def float_literal_def to_double_def overflow_threshold_def decimal_value_def
      int_part_def frac_part_def nat_of_digits_def digit_value_def

































section \<open>Transactions of the Catalog Store\<close>

lemma and_then_cases:
  assumes "and_then m f s = (r, s')"
  obtains (raised) e where "m s = (Inl e, s')" "r = Inl e"
        | (returned) x s1 where "m s = (Inr x, s1)" "f x s1 = (r, s')"
  using assms by (auto simp: and_then_def split: prod.splits sum.splits)

lemma get_cursor_cases:
  assumes "get_cursor body c = (r, c')"
  obtains (raised) e c1 where "body (cur c) = (Inl e, c1)" "r = Inl e"
            "c' = rollback (c\<lparr>cur := c1\<rparr>)"
        | (returned) x c1 where "body (cur c) = (Inr x, c1)" "r = Inr x"
            "c' = commit (c\<lparr>cur := c1\<rparr>)"
  using assms by (auto simp: get_cursor_def split: prod.splits sum.splits)

lemma get_cursor_clean: "get_cursor body c = (r, c') \<Longrightarrow> clean c'"
  by (erule get_cursor_cases) (simp_all add: clean_def commit_def rollback_def)

lemma get_cursor_raised: "get_cursor body c = (Inl e, c') \<Longrightarrow> committed c' = committed c"
  by (erule get_cursor_cases) (simp_all add: rollback_def)

lemma get_cursor_returned:
  "get_cursor body c = (Inr x, c') \<Longrightarrow> committed c' = db (snd (body (cur c)))"
  by (erule get_cursor_cases) (simp_all add: commit_def)

lemma get_cursor_transaction:
  assumes "get_cursor body c = (r, c')"
  shows "clean c' \<and> committed c' = (case r of Inl e \<Rightarrow> committed c | Inr x \<Rightarrow> db (snd (body (cur c))))"
  using assms get_cursor_clean [OF assms]
  by (cases r) (simp_all add: get_cursor_raised get_cursor_returned)

text \<open>The processor resolution commits at most one new processor row.\<close>

lemma select_processor_id_db: "select_processor_id n c = (r, c') \<Longrightarrow> db c' = db c"
  by (auto simp: select_processor_id_def select_by_name_def tick_def split: pyval.splits)

lemma insert_processor_db:
  "insert_processor n c = (r, c') \<Longrightarrow>
   db c' = db c \<or> (\<exists>pid s. db c' = (db c)\<lparr>processors := processors (db c) @ [(pid, s)]\<rparr>)"
  by (force simp: insert_processor_def tick_def split: option.splits if_splits)

lemma db_get_or_create_processor_effect:
  assumes "db_get_or_create_processor n c = (r, c')" "clean c"
  shows "clean c' \<and> (committed c' = committed c \<or>
           (\<exists>pid s. committed c' = (committed c)\<lparr>processors := processors (committed c) @ [(pid, s)]\<rparr>))"
proof -
  let ?body = "and_then (select_processor_id n)
          (\<lambda>result. case result of Some pid \<Rightarrow> ret pid | None \<Rightarrow> insert_processor n)"
  from assms(1) have g: "get_cursor ?body c = (r, c')"
    by (simp add: db_get_or_create_processor_def)
  then have cl: "clean c'" by (rule get_cursor_clean)
  have body: "db c1 = db (cur c) \<or> (\<exists>pid s. db c1 = (db (cur c))\<lparr>processors := processors (db (cur c)) @ [(pid, s)]\<rparr>)"
    if "?body (cur c) = (r1, c1)" for r1 c1
    using that
  proof (cases rule: and_then_cases)
    case (raised e)
    then show ?thesis by (simp add: select_processor_id_db)
  next
    case (returned x s1)
    from returned(1) have "db s1 = db (cur c)" by (rule select_processor_id_db)
    with returned(2) show ?thesis
      using insert_processor_db [of n s1 r1 c1]
      by (cases x) (auto simp: ret_def)
  qed
  from g show ?thesis
  proof (cases rule: get_cursor_cases)
    case (raised e c1)
    then show ?thesis using cl by (simp add: rollback_def)
  next
    case (returned x c1)
    with body [of "Inr x" c1] assms(2) cl show ?thesis
      by (auto simp: commit_def clean_def)
  qed
qed

lemma resolve_processor_effect:
  assumes "resolve_processor model_data c = (r, c')" "clean c"
  shows "clean c' \<and> (committed c' = committed c \<or>
           (\<exists>pid s. committed c' = (committed c)\<lparr>processors := processors (committed c) @ [(pid, s)]\<rparr>))"
proof (cases "truthy (dict_get model_data ''processor_name'')")
  case False
  with assms show ?thesis by (simp add: resolve_processor_def ret_def)
next
  case True
  with assms(1) have "and_then (getitem model_data ''processor_name'')
             (\<lambda>name. and_then (db_get_or_create_processor name) (\<lambda>pid. ret (Some pid))) c = (r, c')"
    by (simp add: resolve_processor_def)
  then show ?thesis
  proof (cases rule: and_then_cases)
    case (raised e)
    then have "c' = c" by (auto simp: getitem_def raise_def ret_def split: option.splits)
    with assms(2) show ?thesis by simp
  next
    case (returned name s1)
    then have s1: "s1 = c" by (auto simp: getitem_def raise_def ret_def split: option.splits)
    from returned(2) show ?thesis
    proof (cases rule: and_then_cases)
      case (raised e)
      with s1 assms(2) show ?thesis by (auto dest: db_get_or_create_processor_effect)
    next
      case (returned pid s2)
      then have "c' = s2" by (simp add: ret_def)
      with returned(1) s1 assms(2) show ?thesis by (auto dest: db_get_or_create_processor_effect)
    qed
  qed
qed

lemma two_transactions:
  assumes "and_then (resolve_processor model_data) (\<lambda>processor_id. get_cursor (body processor_id)) c = (r, c')"
    and "clean c"
  shows "clean c' \<and>
         (case r of
            Inr x \<Rightarrow> True
          | Inl e \<Rightarrow> committed c' = committed c \<or>
              (\<exists>pid s. committed c' = (committed c)\<lparr>processors := processors (committed c) @ [(pid, s)]\<rparr>))"
  using assms(1)
proof (cases rule: and_then_cases)
  case (raised e)
  with resolve_processor_effect [OF raised(1) assms(2)] show ?thesis by simp
next
  case (returned x s1)
  from resolve_processor_effect [OF returned(1) assms(2)]
  have 1: "clean s1" and 2: "committed s1 = committed c \<or>
           (\<exists>pid s. committed s1 = (committed c)\<lparr>processors := processors (committed c) @ [(pid, s)]\<rparr>)"
    by blast+
  from returned(2) have "clean c'" by (rule get_cursor_clean)
  moreover have "committed c' = committed s1" if "r = Inl e" for e
    using returned(2) that by (simp add: get_cursor_raised)
  ultimately show ?thesis using 2 by (cases r) auto
qed


lemma single_transaction_raised:
  "add_company n c = (Inl e, c') \<Longrightarrow> committed c' = committed c"
  "update_company cid n c = (Inl e, c') \<Longrightarrow> committed c' = committed c"
  "delete_company cid c = (Inl e, c') \<Longrightarrow> committed c' = committed c"
  "db_get_or_create_processor n c = (Inl e, c') \<Longrightarrow> committed c' = committed c"
  "delete_model mid c = (Inl e, c') \<Longrightarrow> committed c' = committed c"
  "add_or_update_price mid rid a c = (Inl e, c') \<Longrightarrow> committed c' = committed c"
  "delete_price pid c = (Inl e, c') \<Longrightarrow> committed c' = committed c"
  unfolding add_company_def update_company_def delete_company_def db_get_or_create_processor_def
    delete_model_def add_or_update_price_def delete_price_def
  by (erule get_cursor_raised)+

text \<open>
  Claim C2, as amended.  Every \<open>with\<close> block of the Catalog Store is one transaction:
  whatever its body does, the connection is clean afterwards, the body's writes are
  all durable when it returned, and the durable tables are unchanged when it raised.
  The operations that consist of one block (adding, renaming and deleting a company,
  resolving a processor, deleting a model, upserting and deleting a price) therefore
  leave the store unchanged when they fail.  \<open>add_model\<close> and \<open>update_model\<close> are two
  transactions, the processor resolution and then the model statement: they leave a
  clean connection, and when they fail the store is unchanged except for the one
  processor row that the resolution may have committed.
\<close>

theorem catalog_store_transactions:
  "(get_cursor body c = (r, c') \<longrightarrow>
      clean c' \<and>
      committed c' = (case r of Inl e \<Rightarrow> committed c | Inr x \<Rightarrow> db (snd (body (cur c))))) \<and>
   (add_company n c = (Inl e, c') \<longrightarrow> committed c' = committed c) \<and>
   (update_company cid n c = (Inl e, c') \<longrightarrow> committed c' = committed c) \<and>
   (delete_company cid c = (Inl e, c') \<longrightarrow> committed c' = committed c) \<and>
   (db_get_or_create_processor n c = (Inl e, c') \<longrightarrow> committed c' = committed c) \<and>
   (delete_model mid c = (Inl e, c') \<longrightarrow> committed c' = committed c) \<and>
   (add_or_update_price mid rid a c = (Inl e, c') \<longrightarrow> committed c' = committed c) \<and>
   (delete_price pid c = (Inl e, c') \<longrightarrow> committed c' = committed c) \<and>
   (clean c \<and> add_model model_data c = (r1, c1) \<longrightarrow>
      clean c1 \<and>
      (case r1 of
         Inr x \<Rightarrow> True
       | Inl e \<Rightarrow> committed c1 = committed c \<or>
           (\<exists>p s. committed c1 = (committed c)\<lparr>processors := processors (committed c) @ [(p, s)]\<rparr>))) \<and>
   (clean c \<and> update_model mid model_data c = (r2, c2) \<longrightarrow>
      clean c2 \<and>
      (case r2 of
         Inr x \<Rightarrow> True
       | Inl e \<Rightarrow> committed c2 = committed c \<or>
           (\<exists>p s. committed c2 = (committed c)\<lparr>processors := processors (committed c) @ [(p, s)]\<rparr>)))"
proof (intro conjI impI)
  assume "get_cursor body c = (r, c')"
  then show "clean c'"
    and "committed c' = (case r of Inl e \<Rightarrow> committed c | Inr x \<Rightarrow> db (snd (body (cur c))))"
    using get_cursor_transaction by blast+
next
  assume a: "clean c \<and> add_model model_data c = (r1, c1)"
  then have "and_then (resolve_processor model_data)
       (\<lambda>processor_id. get_cursor
            (and_then (getitem model_data ''model_name'')
               (\<lambda>name. and_then (getitem model_data ''company_id'')
                  (\<lambda>company. insert_model name company processor_id (specs_of model_data))))) c = (r1, c1)"
    by (simp add: add_model_def)
  from two_transactions [OF this] a
  show "clean c1"
    and "case r1 of Inr x \<Rightarrow> True
       | Inl e \<Rightarrow> committed c1 = committed c \<or>
           (\<exists>p s. committed c1 = (committed c)\<lparr>processors := processors (committed c) @ [(p, s)]\<rparr>)"
    by blast+
next
  assume a: "clean c \<and> update_model mid model_data c = (r2, c2)"
  then have "and_then (resolve_processor model_data)
       (\<lambda>processor_id. get_cursor
            (and_then (getitem model_data ''model_name'')
               (\<lambda>name. and_then (getitem model_data ''company_id'')
                  (\<lambda>company. update_model_row mid name company processor_id (specs_of model_data))))) c = (r2, c2)"
    by (simp add: update_model_def)
  from two_transactions [OF this] a
  show "clean c2"
    and "case r2 of Inr x \<Rightarrow> True
       | Inl e \<Rightarrow> committed c2 = committed c \<or>
           (\<exists>p s. committed c2 = (committed c)\<lparr>processors := processors (committed c) @ [(p, s)]\<rparr>)"
    by blast+
qed (erule single_transaction_raised)+

lemma add_model_example:
  "add_model form_without_company fresh_connection =
     (Inl NotNullViolation,
      \<lparr>committed = seeded_db\<lparr>processors := [(1, ''Chip1'')]\<rparr>,
       cur = \<lparr>db = seeded_db\<lparr>processors := [(1, ''Chip1'')]\<rparr>, company_seq = 1, processor_seq = 2,
              model_seq = 1, price_seq = 1, executed = 3\<rparr>\<rparr>)"
  by (simp add: store_eval facade_eval)

theorem catalog_store_transactions_witness:
  "clean fresh_connection \<and>
   add_model form_without_company fresh_connection =
     (Inl NotNullViolation,
      \<lparr>committed = seeded_db\<lparr>processors := [(1, ''Chip1'')]\<rparr>,
       cur = \<lparr>db = seeded_db\<lparr>processors := [(1, ''Chip1'')]\<rparr>, company_seq = 1, processor_seq = 2,
              model_seq = 1, price_seq = 1, executed = 3\<rparr>\<rparr>) \<and>
   clean \<lparr>committed = seeded_db\<lparr>processors := [(1, ''Chip1'')]\<rparr>,
       cur = \<lparr>db = seeded_db\<lparr>processors := [(1, ''Chip1'')]\<rparr>, company_seq = 1, processor_seq = 2,
              model_seq = 1, price_seq = 1, executed = 3\<rparr>\<rparr>"
proof -
  have cl: "clean fresh_connection" by (simp add: clean_def fresh_connection_def)
  from catalog_store_transactions [where c = fresh_connection
      and model_data = form_without_company and ?r1.0 = "Inl NotNullViolation"
      and ?c1.0 = "\<lparr>committed = seeded_db\<lparr>processors := [(1, ''Chip1'')]\<rparr>,
       cur = \<lparr>db = seeded_db\<lparr>processors := [(1, ''Chip1'')]\<rparr>, company_seq = 1, processor_seq = 2,
              model_seq = 1, price_seq = 1, executed = 3\<rparr>\<rparr>"]
    cl add_model_example
  show ?thesis by (simp add: clean_def)
qed

text \<open>
  The claim as written fails for \<open>add_model\<close>: with no company selected the model
  statement raises, and the processor row of the first transaction stays committed.
\<close>

theorem add_model_partial_write:
  "fst (add_model form_without_company fresh_connection) = Inl NotNullViolation \<and>
   processors (committed fresh_connection) = [] \<and>
   processors (committed (snd (add_model form_without_company fresh_connection))) = [(1, ''Chip1'')]"
  by (simp add: store_eval facade_eval)

section \<open>The price upsert\<close>


lemma filter_key_unique:
  assumes "distinct (map f xs)" "x \<in> set xs"
  shows "filter (\<lambda>y. f y = f x) xs = [x]"
  using assms
proof (induction xs)
  case Nil
  then show ?case by simp
next
  case (Cons y ys)
  show ?case
  proof (cases "y = x")
    case True
    from Cons.prems(1) have "f x \<notin> f ` set ys" using True by simp
    then have "\<forall>y\<in>set ys. f y \<noteq> f x" by (metis imageI)
    then have "filter (\<lambda>y. f y = f x) ys = []" by (simp add: filter_empty_conv)
    with True show ?thesis by simp
  next
    case False
    with Cons.prems have "x \<in> set ys" by simp
    moreover from Cons.prems(1) this have "f y \<noteq> f x" by auto
    ultimately show ?thesis using Cons by simp
  qed
qed


lemma has_price_iff: "has_price d mid rid = ((mid, rid) \<in> price_key ` set (prices d))"
  by (auto simp: has_price_def list_ex_iff price_key_def)


lemma has_price_prices_of: "has_price d mid rid = (prices_of d mid rid \<noteq> [])"
  by (auto simp: has_price_def list_ex_iff prices_of_def price_key_def filter_empty_conv)


lemma price_key_overwrite: "price_key (overwrite mid rid a p) = price_key p"
  by (simp add: overwrite_def price_key_def)


lemma overwrite_eq:
  "(\<lambda>p. if p_model_id p = mid \<and> p_region_id p = rid then p\<lparr>p_price := a\<rparr> else p) =
   overwrite mid rid a"
  by (rule ext) (simp add: overwrite_def price_key_def)


lemma upsert_price_returned:
  assumes "upsert_price mid rid a c = (Inr (), c')"
  shows "(has_price (db c) mid rid \<and> prices (db c') = map (overwrite mid rid a) (prices (db c))) \<or>
         (\<not> has_price (db c) mid rid \<and>
          prices (db c') = prices (db c) @
            [\<lparr>p_id = price_seq c, p_model_id = mid, p_region_id = rid, p_price = a\<rparr>])"
proof (cases "has_price (db c) mid rid")
  case True
  with assms have "c' = tick (c\<lparr>db := (db c)\<lparr>prices := map (overwrite mid rid a) (prices (db c))\<rparr>\<rparr>)"
    by (simp add: upsert_price_def overwrite_eq)
  with True show ?thesis by (simp add: tick_def)
next
  case False
  show ?thesis
  proof (cases "price_refs_ok (db c) mid rid")
    case True
    with False assms have "c' = tick (append_price mid rid a c)"
      by (simp add: upsert_price_def)
    with False show ?thesis by (simp add: tick_def append_price_def)
  next
    case no: False
    with False assms show ?thesis by (simp add: upsert_price_def)
  qed
qed


lemma get_cursor_returnedD:
  "get_cursor body c = (Inr x, c') \<Longrightarrow>
   \<exists>c1. body (cur c) = (Inr x, c1) \<and> c' = commit (c\<lparr>cur := c1\<rparr>)"
  by (erule get_cursor_cases) simp_all

lemma add_or_update_price_returned:
  assumes "add_or_update_price mid rid a c = (Inr (), c')"
  shows "clean c'"
    and "(has_price (db (cur c)) mid rid \<and>
          prices (committed c') = map (overwrite mid rid a) (prices (db (cur c)))) \<or>
         (\<not> has_price (db (cur c)) mid rid \<and>
          (\<exists>p. p_model_id p = mid \<and> p_region_id p = rid \<and> p_price p = a \<and>
               prices (committed c') = prices (db (cur c)) @ [p]))"
proof -
  from assms have g: "get_cursor (upsert_price mid rid a) c = (Inr (), c')"
    by (simp add: add_or_update_price_def)
  then show "clean c'" by (rule get_cursor_clean)
  from get_cursor_returnedD [OF g]
  obtain c1 where u: "upsert_price mid rid a (cur c) = (Inr (), c1)"
    and c': "c' = commit (c\<lparr>cur := c1\<rparr>)"
    by blast
  from c' have eq: "committed c' = db c1" by (simp add: commit_def)
  let ?p = "\<lparr>p_id = price_seq (cur c), p_model_id = mid, p_region_id = rid, p_price = a\<rparr>"
  from upsert_price_returned [OF u]
  show "(has_price (db (cur c)) mid rid \<and>
          prices (committed c') = map (overwrite mid rid a) (prices (db (cur c)))) \<or>
         (\<not> has_price (db (cur c)) mid rid \<and>
          (\<exists>p. p_model_id p = mid \<and> p_region_id p = rid \<and> p_price p = a \<and>
               prices (committed c') = prices (db (cur c)) @ [p]))"
  proof (elim disjE conjE)
    assume "has_price (db (cur c)) mid rid"
      "prices (db c1) = map (overwrite mid rid a) (prices (db (cur c)))"
    then show ?thesis by (simp add: eq)
  next
    assume n: "\<not> has_price (db (cur c)) mid rid" "prices (db c1) = prices (db (cur c)) @ [?p]"
    have "p_model_id ?p = mid \<and> p_region_id ?p = rid \<and> p_price ?p = a \<and>
          prices (committed c') = prices (db (cur c)) @ [?p]"
      using n(2) by (simp add: eq)
    then have "\<exists>p. p_model_id p = mid \<and> p_region_id p = rid \<and> p_price p = a \<and>
          prices (committed c') = prices (db (cur c)) @ [p]" by (rule exI)
    with n(1) show ?thesis by (rule_tac disjI2) (rule conjI)
  qed
qed


lemma upsert_keeps_distinct:
  assumes "add_or_update_price mid rid a c = (Inr (), c')"
    and "distinct (map price_key (prices (db (cur c))))"
  shows "distinct (map price_key (prices (committed c')))"
  using add_or_update_price_returned(2) [OF assms(1)]
proof (elim disjE conjE exE)
  assume "prices (committed c') = map (overwrite mid rid a) (prices (db (cur c)))"
  then have "map price_key (prices (committed c')) = map price_key (prices (db (cur c)))"
    by (simp add: price_key_overwrite comp_def)
  with assms(2) show ?thesis by simp
next
  fix p
  assume "\<not> has_price (db (cur c)) mid rid" "p_model_id p = mid" "p_region_id p = rid"
    "prices (committed c') = prices (db (cur c)) @ [p]"
  with assms(2) show ?thesis by (simp add: has_price_iff price_key_def)
qed


lemma upsert_single_row:
  assumes "add_or_update_price mid rid a c = (Inr (), c')"
    and "distinct (map price_key (prices (db (cur c))))"
  shows "\<exists>p. prices_of (committed c') mid rid = [p] \<and> p_price p = a"
proof -
  from add_or_update_price_returned(2) [OF assms(1)]
  obtain p where p: "p \<in> set (prices (committed c'))" "price_key p = (mid, rid)" "p_price p = a"
  proof (elim disjE conjE exE)
    assume h: "has_price (db (cur c)) mid rid"
      and m: "prices (committed c') = map (overwrite mid rid a) (prices (db (cur c)))"
    from h obtain q where q: "q \<in> set (prices (db (cur c)))" "price_key q = (mid, rid)"
      by (auto simp: has_price_iff)
    then have "overwrite mid rid a q \<in> set (prices (committed c'))" using m by simp
    moreover have "price_key (overwrite mid rid a q) = (mid, rid)"
      using q by (simp add: price_key_overwrite)
    moreover have "p_price (overwrite mid rid a q) = a" using q by (simp add: overwrite_def)
    ultimately show ?thesis using that by blast
  next
    fix p
    assume "p_model_id p = mid" "p_region_id p = rid" "p_price p = a"
      "prices (committed c') = prices (db (cur c)) @ [p]"
    then show ?thesis using that [of p] by (simp add: price_key_def)
  qed
  from upsert_keeps_distinct [OF assms] p(1)
  have "filter (\<lambda>y. price_key y = price_key p) (prices (committed c')) = [p]"
    by (rule filter_key_unique)
  with p show ?thesis by (auto simp: prices_of_def)
qed


lemma upsert_succeeds:
  assumes "price_refs_ok (db (cur c)) mid rid"
  shows "fst (add_or_update_price mid rid a c) = Inr ()"
  using assms
  by (simp add: add_or_update_price_def get_cursor_def upsert_price_def)


lemma upsert_price_frame:
  assumes "upsert_price mid rid a c = (r, c')"
  shows "models (db c') = models (db c) \<and> regions (db c') = regions (db c)"
proof (cases "has_price (db c) mid rid")
  case True
  with assms have "c' = tick (c\<lparr>db := (db c)\<lparr>prices := map (overwrite mid rid a) (prices (db c))\<rparr>\<rparr>)"
    by (simp add: upsert_price_def overwrite_eq)
  then show ?thesis by (simp add: tick_def)
next
  case False
  show ?thesis
  proof (cases "price_refs_ok (db c) mid rid")
    case True
    with False assms have "c' = tick (append_price mid rid a c)"
      by (simp add: upsert_price_def)
    then show ?thesis by (simp add: tick_def append_price_def)
  next
    case no: False
    with False assms have "c' = tick c" by (simp add: upsert_price_def)
    then show ?thesis by (simp add: tick_def)
  qed
qed

lemma upsert_keeps_refs:
  assumes "add_or_update_price mid rid a c = (Inr (), c')" "price_refs_ok (db (cur c)) mid rid"
  shows "price_refs_ok (db (cur c')) mid rid"
proof -
  from assms(1) have g: "get_cursor (upsert_price mid rid a) c = (Inr (), c')"
    by (simp add: add_or_update_price_def)
  from get_cursor_returnedD [OF g]
  obtain c1 where u: "upsert_price mid rid a (cur c) = (Inr (), c1)"
    and c': "c' = commit (c\<lparr>cur := c1\<rparr>)"
    by blast
  from c' have "db (cur c') = db c1" by (simp add: commit_def)
  with upsert_price_frame [OF u] assms(2) show ?thesis by (simp add: price_refs_ok_def)
qed


text \<open>
  Claim C6.  On a store that satisfies the uniqueness constraint on (model, region),
  two successful upserts for the same pair leave exactly one price row for the pair,
  with the second amount, and the constraint holds after each of them.  The first call
  appends a row when the pair has none and overwrites the amount otherwise; the second
  call overwrites the amount in place.  Both calls succeed whenever the model and the
  region exist.
\<close>

theorem upsert_price_twice:
  "(clean c \<and> distinct (map price_key (prices (committed c))) \<and>
    add_or_update_price mid rid a1 c = (Inr (), c1) \<and>
    add_or_update_price mid rid a2 c1 = (Inr (), c2) \<longrightarrow>
      (\<exists>p. prices_of (committed c2) mid rid = [p] \<and> p_price p = a2) \<and>
      distinct (map price_key (prices (committed c1))) \<and>
      distinct (map price_key (prices (committed c2))) \<and>
      prices (committed c2) = map (overwrite mid rid a2) (prices (committed c1)) \<and>
      (if has_price (committed c) mid rid
       then prices (committed c1) = map (overwrite mid rid a1) (prices (committed c))
       else (\<exists>p. p_model_id p = mid \<and> p_region_id p = rid \<and> p_price p = a1 \<and>
                 prices (committed c1) = prices (committed c) @ [p]))) \<and>
   (clean c \<and> price_refs_ok (committed c) mid rid \<longrightarrow>
      fst (add_or_update_price mid rid a1 c) = Inr () \<and>
      fst (add_or_update_price mid rid a2 (snd (add_or_update_price mid rid a1 c))) = Inr ())"
proof (intro conjI impI)
  assume h: "clean c \<and> distinct (map price_key (prices (committed c))) \<and>
    add_or_update_price mid rid a1 c = (Inr (), c1) \<and>
    add_or_update_price mid rid a2 c1 = (Inr (), c2)"
  then have cl: "db (cur c) = committed c"
    and d0: "distinct (map price_key (prices (db (cur c))))"
    and u1: "add_or_update_price mid rid a1 c = (Inr (), c1)"
    and u2: "add_or_update_price mid rid a2 c1 = (Inr (), c2)"
    by (simp_all add: clean_def)
  from add_or_update_price_returned(1) [OF u1] have cl1: "db (cur c1) = committed c1"
    by (simp add: clean_def)
  from upsert_keeps_distinct [OF u1 d0]
  show d1: "distinct (map price_key (prices (committed c1)))" .
  then have d1': "distinct (map price_key (prices (db (cur c1))))" by (simp add: cl1)
  from upsert_keeps_distinct [OF u2 d1']
  show "distinct (map price_key (prices (committed c2)))" .
  from upsert_single_row [OF u2 d1']
  show "\<exists>p. prices_of (committed c2) mid rid = [p] \<and> p_price p = a2" .
  from upsert_single_row [OF u1 d0] have "prices_of (committed c1) mid rid \<noteq> []" by auto
  then have "has_price (db (cur c1)) mid rid" by (simp add: has_price_prices_of cl1)
  with add_or_update_price_returned(2) [OF u2]
  show "prices (committed c2) = map (overwrite mid rid a2) (prices (committed c1))"
    by (simp add: cl1)
  from add_or_update_price_returned(2) [OF u1]
  show "if has_price (committed c) mid rid
       then prices (committed c1) = map (overwrite mid rid a1) (prices (committed c))
       else (\<exists>p. p_model_id p = mid \<and> p_region_id p = rid \<and> p_price p = a1 \<and>
                 prices (committed c1) = prices (committed c) @ [p])"
    unfolding cl by (cases "has_price (committed c) mid rid") simp_all
next
  assume h: "clean c \<and> price_refs_ok (committed c) mid rid"
  then have r: "price_refs_ok (db (cur c)) mid rid" by (simp add: clean_def)
  then show 1: "fst (add_or_update_price mid rid a1 c) = Inr ()" by (rule upsert_succeeds)
  then have "add_or_update_price mid rid a1 c = (Inr (), snd (add_or_update_price mid rid a1 c))"
    by (metis prod.collapse)
  from upsert_keeps_refs [OF this r]
  show "fst (add_or_update_price mid rid a2 (snd (add_or_update_price mid rid a1 c))) = Inr ()"
    by (rule upsert_succeeds)
qed

theorem upsert_price_twice_witness:
  "clean stocked_connection \<and> distinct (map price_key (prices (committed stocked_connection))) \<and>
   price_refs_ok (committed stocked_connection) 1 1 \<and>
   fst (add_or_update_price 1 1 (Finite 100) stocked_connection) = Inr () \<and>
   fst (add_or_update_price 1 1 (Finite 200)
          (snd (add_or_update_price 1 1 (Finite 100) stocked_connection))) = Inr () \<and>
   (\<exists>p. prices_of
          (committed (snd (add_or_update_price 1 1 (Finite 200)
             (snd (add_or_update_price 1 1 (Finite 100) stocked_connection))))) 1 1 = [p] \<and>
        p_price p = Finite 200) \<and>
   prices (committed (snd (add_or_update_price 1 1 (Finite 200)
             (snd (add_or_update_price 1 1 (Finite 100) stocked_connection))))) =
     [\<lparr>p_id = 1, p_model_id = 1, p_region_id = 1, p_price = Finite 200\<rparr>]"
proof -
  let ?c1 = "snd (add_or_update_price 1 1 (Finite 100) stocked_connection)"
  let ?c2 = "snd (add_or_update_price 1 1 (Finite 200) ?c1)"
  note t = upsert_price_twice [where c = stocked_connection and mid = 1 and rid = 1
      and ?a1.0 = "Finite 100" and ?a2.0 = "Finite 200" and ?c1.0 = ?c1 and ?c2.0 = ?c2]
  have a: "clean stocked_connection"
    "distinct (map price_key (prices (committed stocked_connection)))"
    "price_refs_ok (committed stocked_connection) 1 1"
    by (simp_all add: clean_def stocked_connection_def stocked_db_def seeded_db_def
        price_refs_ok_def)
  from t a have f: "fst (add_or_update_price 1 1 (Finite 100) stocked_connection) = Inr ()"
    "fst (add_or_update_price 1 1 (Finite 200) ?c1) = Inr ()"
    by blast+
  then have e: "add_or_update_price 1 1 (Finite 100) stocked_connection = (Inr (), ?c1)"
    "add_or_update_price 1 1 (Finite 200) ?c1 = (Inr (), ?c2)"
    by (metis prod.collapse)+
  from t a e have w: "\<exists>p. prices_of (committed ?c2) 1 1 = [p] \<and> p_price p = Finite 200"
    by blast
  have v: "prices (committed ?c2) =
     [\<lparr>p_id = 1, p_model_id = 1, p_region_id = 1, p_price = Finite 200\<rparr>]"
    by (simp add: store_eval facade_eval stocked_db_def stocked_connection_def)
  from a f w v show ?thesis by blast
qed

section \<open>Progress of the importer\<close>

lemma net_new_refl: "net_new key xs xs"
  by (simp add: net_new_def)

lemma net_new_trans:
  assumes "net_new key a b" "net_new key b c"
  shows "net_new key a c"
proof -
  from assms(1) obtain x where b: "b = a @ x" and x: "list_all (\<lambda>r. key r \<notin> key ` set a) x"
    by (auto simp: net_new_def prefix_def)
  from assms(2) obtain y where c: "c = b @ y" and y: "list_all (\<lambda>r. key r \<notin> key ` set b) y"
    by (auto simp: net_new_def prefix_def)
  from y b have "list_all (\<lambda>r. key r \<notin> key ` set a) y"
    by (auto simp: list_all_iff)
  with x b c show ?thesis by (simp add: net_new_def)
qed

lemma net_new_snoc: "key r \<notin> key ` set xs \<Longrightarrow> net_new key xs (xs @ [r])"
  by (simp add: net_new_def)

lemma only_net_new_refl: "only_net_new d d"
  by (simp add: only_net_new_def net_new_refl)

lemma only_net_new_same:
  "models d' = models d \<Longrightarrow> prices d' = prices d \<Longrightarrow> only_net_new d d'"
  by (simp add: only_net_new_def net_new_refl)

lemma only_net_new_trans: "only_net_new a b \<Longrightarrow> only_net_new b c \<Longrightarrow> only_net_new a c"
  unfolding only_net_new_def by (blast intro: net_new_trans)

lemma caches_grow_refl: "caches_grow s s"
  by (simp add: caches_grow_def)

lemma caches_grow_trans: "caches_grow a b \<Longrightarrow> caches_grow b c \<Longrightarrow> caches_grow a c"
  unfolding caches_grow_def by (blast intro: map_le_trans)

lemma counters_grow_refl: "counters_grow s s"
  by (simp add: counters_grow_def)

lemma counters_grow_trans: "counters_grow a b \<Longrightarrow> counters_grow b c \<Longrightarrow> counters_grow a c"
  unfolding counters_grow_def by auto

lemma advances_refl: "advances s s"
  by (simp add: advances_def caches_grow_refl counters_grow_refl only_net_new_refl)

lemma advances_trans:
  assumes "advances a b" "advances b c"
  shows "advances a c"
  using assms unfolding advances_def
  by (auto intro: caches_grow_trans counters_grow_trans only_net_new_trans)

lemma execute_cases:
  assumes "execute stmt s = (r, s')"
  obtains c' where "stmt (cur (conn s)) = (r, c')" "s' = s\<lparr>conn := (conn s)\<lparr>cur := c'\<rparr>\<rparr>"
  using assms by (simp add: execute_def split: prod.splits)

lemma execute_advances:
  assumes "execute stmt s = (r, s')"
    and "\<And>c'. stmt (cur (conn s)) = (r, c') \<Longrightarrow> only_net_new (db (cur (conn s))) (db c')"
  shows "advances s s'"
  using assms(1)
proof (cases rule: execute_cases)
  case (1 c')
  from assms(2) [OF 1(1)] 1(2) show ?thesis
    by (simp add: advances_def caches_grow_def counters_grow_def durable_def pending_def)
qed

lemma select_by_name_db: "select_by_name t n c = (r, c') \<Longrightarrow> db c' = db c"
  by (cases n) (auto simp: select_by_name_def tick_def)

lemma select_company_id_db: "select_company_id n c = (r, c') \<Longrightarrow> db c' = db c"
  unfolding select_company_id_def by (rule select_by_name_db)

lemma select_model_id_db: "select_model_id n k c = (r, c') \<Longrightarrow> db c' = db c"
  by (cases n) (auto simp: select_model_id_def tick_def)

lemma select_price_id_db: "select_price_id m k c = (r, c') \<Longrightarrow> db c' = db c"
  by (auto simp: select_price_id_def tick_def)

lemma select_regions_db: "select_regions c = (r, c') \<Longrightarrow> db c' = db c"
  by (auto simp: select_regions_def tick_def)

lemma insert_company_tables:
  assumes "insert_company n c = (r, c')"
  shows "models (db c') = models (db c) \<and> prices (db c') = prices (db c)"
proof (cases "sql_text n")
  case None
  with assms show ?thesis by (auto simp: insert_company_def tick_def)
next
  case (Some s)
  with assms show ?thesis
    by (cases "s \<in> snd ` set (companies (db c))") (auto simp: insert_company_def tick_def)
qed

lemma insert_processor_tables:
  assumes "insert_processor n c = (r, c')"
  shows "models (db c') = models (db c) \<and> prices (db c') = prices (db c)"
proof (cases "sql_text n")
  case None
  with assms show ?thesis by (auto simp: insert_processor_def tick_def)
next
  case (Some s)
  with assms show ?thesis
    by (cases "s \<in> snd ` set (processors (db c))") (auto simp: insert_processor_def tick_def)
qed

lemma insert_price_net_new:
  assumes "insert_price mid rid a c = (r, c')"
  shows "only_net_new (db c) (db c')"
proof (cases "has_price (db c) mid rid")
  case True
  with assms have "c' = tick c" by (simp add: insert_price_def)
  then show ?thesis by (simp add: tick_def only_net_new_refl)
next
  case False
  show ?thesis
  proof (cases "price_refs_ok (db c) mid rid")
    case True
    with False assms have "c' = tick (append_price mid rid a c)" by (simp add: insert_price_def)
    then have "models (db c') = models (db c)"
      and "prices (db c') = prices (db c) @
             [\<lparr>p_id = price_seq c, p_model_id = mid, p_region_id = rid, p_price = a\<rparr>]"
      by (simp_all add: tick_def append_price_def)
    moreover have "price_key \<lparr>p_id = price_seq c, p_model_id = mid, p_region_id = rid, p_price = a\<rparr>
        \<notin> price_key ` set (prices (db c))"
      using False by (simp add: has_price_iff price_key_def)
    ultimately show ?thesis by (simp add: only_net_new_def net_new_refl net_new_snoc)
  next
    case no: False
    with False assms have "c' = tick c" by (simp add: insert_price_def)
    then show ?thesis by (simp add: tick_def only_net_new_refl)
  qed
qed


lemma getitem_cases:
  assumes "getitem d k s = (r, s')"
  obtains (missing) "d k = None" "r = Inl KeyError" "s' = s"
        | (present) v where "d k = Some v" "r = Inr v" "s' = s"
  using assms by (cases "d k") (simp_all add: getitem_def raise_def ret_def)

lemma getitem_state: "getitem d k s = (r, s') \<Longrightarrow> s' = s"
  by (erule getitem_cases) simp_all

lemma getitem_value: "getitem d k s = (Inr v, s') \<Longrightarrow> d k = Some v"
  by (erule getitem_cases) simp_all

lemma map_le_fresh: "m k = None \<Longrightarrow> m \<subseteq>\<^sub>m m(k \<mapsto> v)"
  by (auto simp: map_le_def)

lemma cache_store_advances:
  assumes "company_cache s name = None"
  shows "advances s (s\<lparr>company_cache := (company_cache s)(name \<mapsto> cid)\<rparr>)"
  using assms
  by (simp add: advances_def caches_grow_def counters_grow_def durable_def pending_def
      only_net_new_refl map_le_fresh)

lemma processor_cache_store_advances:
  assumes "processor_cache s name = None"
  shows "advances s (s\<lparr>processor_cache := (processor_cache s)(name \<mapsto> pid)\<rparr>)"
  using assms
  by (simp add: advances_def caches_grow_def counters_grow_def durable_def pending_def
      only_net_new_refl map_le_fresh)

lemma execute_caches:
  assumes "execute stmt s = (r, s')"
  shows "company_cache s' = company_cache s" "processor_cache s' = processor_cache s"
    "region_cache s' = region_cache s"
  using assms by (cases rule: execute_cases; simp)+

lemma execute_select_company: "execute (select_company_id n) s = (r, s') \<Longrightarrow> advances s s'"
  by (erule execute_advances) (simp add: select_company_id_db only_net_new_refl)

lemma execute_insert_company: "execute (insert_company n) s = (r, s') \<Longrightarrow> advances s s'"
  by (erule execute_advances) (simp add: insert_company_tables only_net_new_same)

lemma execute_select_processor: "execute (select_processor_id n) s = (r, s') \<Longrightarrow> advances s s'"
  by (erule execute_advances) (simp add: select_processor_id_db only_net_new_refl)

lemma execute_insert_processor: "execute (insert_processor n) s = (r, s') \<Longrightarrow> advances s s'"
  by (erule execute_advances) (simp add: insert_processor_tables only_net_new_same)

lemma execute_select_model: "execute (select_model_id n k) s = (r, s') \<Longrightarrow> advances s s'"
  by (erule execute_advances) (simp add: select_model_id_db only_net_new_refl)

lemma execute_select_price: "execute (select_price_id m k) s = (r, s') \<Longrightarrow> advances s s'"
  by (erule execute_advances) (simp add: select_price_id_db only_net_new_refl)

lemma execute_insert_price: "execute (insert_price m k a) s = (r, s') \<Longrightarrow> advances s s'"
  by (erule execute_advances) (simp add: insert_price_net_new)

text \<open>The two resolutions: a hit leaves the state as it is, a miss advances it.\<close>

lemma get_or_create_company_hit:
  "company_cache s name = Some cid \<Longrightarrow> get_or_create_company name s = (Inr cid, s)"
  by (simp add: get_or_create_company_def)

lemma get_or_create_company_advances:
  assumes "get_or_create_company name s = (r, s')"
  shows "advances s s'"
proof (cases "company_cache s name")
  case (Some cid)
  with assms show ?thesis by (simp add: get_or_create_company_def advances_refl)
next
  case None
  with assms have "and_then (execute (select_company_id name))
            (\<lambda>result.
               and_then (case result of
                           Some cid \<Rightarrow> ret cid
                         | None \<Rightarrow> execute (insert_company name))
                 (\<lambda>cid s. (Inr cid, s\<lparr>company_cache := (company_cache s)(name \<mapsto> cid)\<rparr>)))
            s = (r, s')"
    by (simp add: get_or_create_company_def)
  then show ?thesis
  proof (cases rule: and_then_cases)
    case (raised e)
    then show ?thesis by (simp add: execute_select_company)
  next
    case (returned result s1)
    from returned(1) have a1: "advances s s1" by (rule execute_select_company)
    from returned(1) None have c1: "company_cache s1 name = None" by (simp add: execute_caches)
    from returned(2) show ?thesis
    proof (cases rule: and_then_cases)
      case (raised e)
      then have "advances s1 s'"
        by (cases result) (simp_all add: ret_def execute_insert_company)
      with a1 show ?thesis by (rule advances_trans)
    next
      case inner: (returned cid s2)
      from inner(1) have a2: "advances s1 s2"
        by (cases result) (simp_all add: ret_def execute_insert_company advances_refl)
      from inner(1) c1 have c2: "company_cache s2 name = None"
        by (cases result) (auto simp: ret_def execute_caches)
      from inner(2) have "s' = s2\<lparr>company_cache := (company_cache s2)(name \<mapsto> cid)\<rparr>" by simp
      with cache_store_advances [OF c2] have "advances s2 s'" by simp
      with a1 a2 show ?thesis by (blast intro: advances_trans)
    qed
  qed
qed

lemma get_or_create_company_cached:
  assumes "get_or_create_company name s = (Inr cid, s')"
  shows "company_cache s' name = Some cid"
proof (cases "company_cache s name")
  case (Some k)
  with assms show ?thesis by (simp add: get_or_create_company_def)
next
  case None
  with assms have "and_then (execute (select_company_id name))
            (\<lambda>result.
               and_then (case result of
                           Some cid \<Rightarrow> ret cid
                         | None \<Rightarrow> execute (insert_company name))
                 (\<lambda>cid s. (Inr cid, s\<lparr>company_cache := (company_cache s)(name \<mapsto> cid)\<rparr>)))
            s = (Inr cid, s')"
    by (simp add: get_or_create_company_def)
  then show ?thesis
  proof (cases rule: and_then_cases)
    case (returned result s1)
    from returned(2) show ?thesis
    proof (cases rule: and_then_cases)
      case inner: (returned k s2)
      then show ?thesis by auto
    qed simp
  qed simp
qed

lemma get_or_create_processor_hit:
  "processor_cache s name = Some pid \<Longrightarrow> \<not> isna name \<Longrightarrow> name \<noteq> PStr [] \<Longrightarrow>
   get_or_create_processor name s = (Inr (Some pid), s)"
  by (simp add: get_or_create_processor_def)

lemma get_or_create_processor_null:
  "isna name \<or> name = PStr [] \<Longrightarrow> get_or_create_processor name s = (Inr None, s)"
  by (simp add: get_or_create_processor_def)

lemma get_or_create_processor_miss:
  assumes "get_or_create_processor name s = (r, s')" "processor_cache s name = None"
    "\<not> (isna name \<or> name = PStr [])"
  shows "and_then (execute (select_processor_id name))
               (\<lambda>result.
                  and_then (case result of
                              Some pid \<Rightarrow> ret pid
                            | None \<Rightarrow> execute (insert_processor name))
                    (\<lambda>pid s. (Inr (Some pid),
                               s\<lparr>processor_cache := (processor_cache s)(name \<mapsto> pid)\<rparr>)))
               s = (r, s')"
  using assms by (simp add: get_or_create_processor_def)

lemma get_or_create_processor_advances:
  assumes "get_or_create_processor name s = (r, s')"
  shows "advances s s'"
proof (cases "isna name \<or> name = PStr []")
  case True
  with assms show ?thesis by (simp add: get_or_create_processor_null advances_refl)
next
  case nn: False
  show ?thesis
  proof (cases "processor_cache s name")
    case (Some pid)
    with assms nn show ?thesis by (simp add: get_or_create_processor_def advances_refl)
  next
    case None
    from get_or_create_processor_miss [OF assms None nn] show ?thesis
    proof (cases rule: and_then_cases)
      case (raised e)
      then show ?thesis by (simp add: execute_select_processor)
    next
      case (returned result s1)
      from returned(1) have a1: "advances s s1" by (rule execute_select_processor)
      from returned(1) None have c1: "processor_cache s1 name = None" by (simp add: execute_caches)
      from returned(2) show ?thesis
      proof (cases rule: and_then_cases)
        case (raised e)
        then have "advances s1 s'"
          by (cases result) (simp_all add: ret_def execute_insert_processor)
        with a1 show ?thesis by (rule advances_trans)
      next
        case inner: (returned pid s2)
        from inner(1) have a2: "advances s1 s2"
          by (cases result) (simp_all add: ret_def execute_insert_processor advances_refl)
        from inner(1) c1 have c2: "processor_cache s2 name = None"
          by (cases result) (auto simp: ret_def execute_caches)
        from inner(2) have "s' = s2\<lparr>processor_cache := (processor_cache s2)(name \<mapsto> pid)\<rparr>"
          by simp
        with processor_cache_store_advances [OF c2] have "advances s2 s'" by simp
        with a1 a2 show ?thesis by (blast intro: advances_trans)
      qed
    qed
  qed
qed

lemma get_or_create_processor_cached:
  assumes "get_or_create_processor name s = (Inr (Some pid), s')"
  shows "processor_cache s' name = Some pid \<and> \<not> isna name \<and> name \<noteq> PStr []"
proof (cases "isna name \<or> name = PStr []")
  case True
  with assms show ?thesis by (simp add: get_or_create_processor_null)
next
  case nn: False
  show ?thesis
  proof (cases "processor_cache s name")
    case (Some k)
    with assms nn show ?thesis by (simp add: get_or_create_processor_def)
  next
    case None
    from get_or_create_processor_miss [OF assms None nn] show ?thesis
    proof (cases rule: and_then_cases)
      case (returned result s1)
      from returned(2) show ?thesis
      proof (cases rule: and_then_cases)
        case inner: (returned k s2)
        with nn show ?thesis by auto
      qed simp
    qed simp
  qed
qed

lemma get_or_create_processor_none:
  assumes "get_or_create_processor name s = (Inr None, s')"
  shows "isna name \<or> name = PStr []"
proof (rule ccontr)
  assume nn: "\<not> (isna name \<or> name = PStr [])"
  show False
  proof (cases "processor_cache s name")
    case (Some k)
    with assms nn show ?thesis by (simp add: get_or_create_processor_def)
  next
    case None
    from get_or_create_processor_miss [OF assms None nn] show ?thesis
    proof (cases rule: and_then_cases)
      case (returned result s1)
      from returned(2) show ?thesis
      proof (cases rule: and_then_cases)
        case inner: (returned k s2)
        then show ?thesis by simp
      qed simp
    qed simp
  qed
qed

lemma select_model_none:
  assumes "select_model_id name cid c = (Inr None, c')"
  shows "name = PNone \<or> (\<exists>n. name = PStr n \<and> (n, cid) \<notin> model_key ` set (models (db c)))"
proof (cases name)
  case (PStr n)
  with assms have "find (\<lambda>m. m_name m = n \<and> m_company_id m = cid) (models (db c)) = None"
    by (simp add: select_model_id_def)
  then have "(n, cid) \<notin> model_key ` set (models (db c))"
    by (auto simp: find_None_iff model_key_def)
  with PStr show ?thesis by simp
qed (use assms in \<open>simp_all add: select_model_id_def\<close>)

lemma check_model_accepts:
  assumes "check_model d name (PInt (int cid)) pid = Inr (s, k)"
  shows "sql_text name = Some s \<and> k = cid"
proof (cases "sql_text name")
  case None
  with assms show ?thesis by (simp add: check_model_def)
next
  case (Some t)
  with assms show ?thesis
    by (cases pid) (auto simp: check_model_def split: if_splits)
qed

lemma insert_model_net_new:
  assumes "insert_model name (PInt (int cid)) pid sp c = (r, c')"
    and "name = PNone \<or> (\<exists>n. name = PStr n \<and> (n, cid) \<notin> model_key ` set (models (db c)))"
  shows "only_net_new (db c) (db c')"
proof (cases "check_model (db c) name (PInt (int cid)) pid")
  case (Inl e)
  with assms(1) have "c' = tick c" by (simp add: insert_model_def)
  then show ?thesis by (simp add: tick_def only_net_new_refl)
next
  case (Inr sk)
  obtain s k where sk: "sk = (s, k)" by (cases sk)
  from check_model_accepts [OF Inr [unfolded sk]] have t: "sql_text name = Some s" and k: "k = cid"
    by simp_all
  from t assms(2) have fresh: "(s, cid) \<notin> model_key ` set (models (db c))"
    by (auto simp: sql_text_def)
  let ?m = "\<lparr>m_id = model_seq c, m_name = s, m_company_id = cid, m_processor_id = pid, m_specs = sp\<rparr>"
  from assms(1) Inr sk k
  have "c' = tick (c\<lparr>db := (db c)\<lparr>models := models (db c) @ [?m]\<rparr>, model_seq := Suc (model_seq c)\<rparr>)"
    by (simp add: insert_model_def)
  then have "models (db c') = models (db c) @ [?m]" and "prices (db c') = prices (db c)"
    by (simp_all add: tick_def)
  moreover have "model_key ?m \<notin> model_key ` set (models (db c))"
    using fresh by (simp add: model_key_def)
  ultimately show ?thesis by (simp add: only_net_new_def net_new_refl net_new_snoc)
qed

lemma model_params_name:
  assumes "model_params row = Inr params"
  shows "row ''Model Name'' = Some (fst params)"
  using assms
  by (auto simp: model_params_def or_raise_def subscript_def split: sum.splits option.splits)

lemma count_model_advances: "advances s (s\<lparr>models_count := models_count s + 1\<rparr>)"
  by (simp add: advances_def caches_grow_def counters_grow_def durable_def pending_def
      only_net_new_refl)

lemma count_price_advances: "advances s (s\<lparr>prices_count := prices_count s + 1\<rparr>)"
  by (simp add: advances_def caches_grow_def counters_grow_def durable_def pending_def
      only_net_new_refl)

lemma insert_new_model_advances:
  assumes "insert_new_model row cid pid s = (r, s')"
    and "row ''Model Name'' = Some name"
    and "name = PNone \<or> (\<exists>n. name = PStr n \<and> (n, cid) \<notin> model_key ` set (models (pending s)))"
  shows "advances s s'"
  using assms(1) unfolding insert_new_model_def
proof (cases rule: and_then_cases)
  case (raised e)
  then show ?thesis by (simp add: advances_refl)
next
  case (returned params s1)
  then have s1: "s1 = s" and mp: "model_params row = Inr params" by simp_all
  from model_params_name [OF mp] assms(2) have n: "fst params = name" by simp
  have ex: "advances s s2"
    if "execute (insert_model (fst params) (PInt (int cid)) pid (snd params)) s = (r2, s2)"
    for r2 s2
    using that
  proof (rule execute_advances)
    fix c'
    assume "insert_model (fst params) (PInt (int cid)) pid (snd params) (cur (conn s)) = (r2, c')"
    then show "only_net_new (db (cur (conn s))) (db c')"
      using assms(3) unfolding n pending_def by (rule insert_model_net_new)
  qed
  from returned(2) [unfolded s1] show ?thesis
  proof (cases rule: and_then_cases)
    case (raised e)
    then show ?thesis by (simp add: ex)
  next
    case inner: (returned mid s2)
    from inner(1) have "advances s s2" by (rule ex)
    moreover from inner(2) have "s' = s2\<lparr>models_count := models_count s2 + 1\<rparr>" by simp
    then have "advances s2 s'" using count_model_advances [of s2] by simp
    ultimately show ?thesis by (rule advances_trans)
  qed
qed

lemma insert_new_model_counts:
  assumes "insert_new_model row cid pid s = (Inr mid, s')"
  shows "models_count s' = Suc (models_count s)"
  using assms unfolding insert_new_model_def
proof (cases rule: and_then_cases)
  case (returned params s1)
  then have s1: "s1 = s" by simp
  from returned(2) [unfolded s1] show ?thesis
  proof (cases rule: and_then_cases)
    case inner: (returned k s2)
    from inner(1) have "models_count s2 = models_count s"
      by (cases rule: execute_cases) simp
    with inner(2) show ?thesis by auto
  qed simp
qed simp

lemma import_price_advances:
  assumes "import_price row mid rc s = (r, s')"
  shows "advances s s'"
  using assms unfolding import_price_def
proof (cases rule: and_then_cases)
  case (raised e)
  from raised(1) have "s' = s" by (rule getitem_state)
  then show ?thesis by (simp add: advances_refl)
next
  case (returned cell s1)
  from returned(1) have s1: "s1 = s" by (rule getitem_state)
  from returned(2) [unfolded s1] show ?thesis
  proof (cases rule: and_then_cases)
    case (raised e)
    then show ?thesis by (simp add: advances_refl)
  next
    case parsed: (returned price s2)
    then have s2: "s2 = s" by simp
    show ?thesis
    proof (cases price)
      case None
      with parsed(2) s2 show ?thesis by (simp add: ret_def advances_refl)
    next
      case (Some amount)
      from parsed(2) [unfolded Some s2 option.case] show ?thesis
      proof (cases rule: and_then_cases)
        case (raised e)
        from raised(1) have "s' = s" by (rule getitem_state)
        then show ?thesis by (simp add: advances_refl)
      next
        case region: (returned region_id s3)
        from region(1) have s3: "s3 = s" by (rule getitem_state)
        from region(2) [unfolded s3] show ?thesis
        proof (cases rule: and_then_cases)
          case (raised e)
          then show ?thesis by (simp add: execute_select_price)
        next
          case sel: (returned found s4)
          from sel(1) have a4: "advances s s4" by (rule execute_select_price)
          show ?thesis
          proof (cases found)
            case (Some pid)
            with sel(2) a4 show ?thesis by (simp add: ret_def)
          next
            case None
            from sel(2) [unfolded None option.case] have "advances s4 s'"
            proof (cases rule: and_then_cases)
              case (raised e)
              then show ?thesis by (simp add: execute_insert_price)
            next
              case ins: (returned u s5)
              from ins(1) have "advances s4 s5" by (rule execute_insert_price)
              moreover from ins(2) have "s' = s5\<lparr>prices_count := prices_count s5 + 1\<rparr>" by simp
              then have "advances s5 s'" using count_price_advances [of s5] by simp
              ultimately show ?thesis by (rule advances_trans)
            qed
            with a4 show ?thesis by (rule advances_trans)
          qed
        qed
      qed
    qed
  qed
qed

lemma import_prices_advances:
  "import_prices row mid rcs s = (r, s') \<Longrightarrow> advances s s'"
proof (induction rcs arbitrary: s r s')
  case Nil
  then show ?case by (simp add: ret_def advances_refl)
next
  case (Cons rc rcs)
  from Cons.prems have "and_then (import_price row mid rc) (\<lambda>u. import_prices row mid rcs) s = (r, s')"
    by simp
  then show ?case
  proof (cases rule: and_then_cases)
    case (raised e)
    then show ?thesis by (simp add: import_price_advances)
  next
    case (returned u s1)
    from returned(1) have "advances s s1" by (rule import_price_advances)
    moreover from returned(2) have "advances s1 s'" by (rule Cons.IH)
    ultimately show ?thesis by (rule advances_trans)
  qed
qed

text \<open>
  The \<open>try\<close> block of a row advances the importer; when it returns, the commit of the
  hundredth row may follow as its last step.
\<close>

lemma model_step_advances:
  assumes sel: "execute (select_model_id name cid) s = (Inr existing, s1)"
    and ins: "(case existing of Some mid \<Rightarrow> ret mid | None \<Rightarrow> insert_new_model row cid pid) s1 = (r, s2)"
    and row: "row ''Model Name'' = Some name"
  shows "advances s1 s2"
proof (cases existing)
  case (Some mid)
  with ins show ?thesis by (simp add: ret_def advances_refl)
next
  case None
  from sel obtain c' where c': "select_model_id name cid (cur (conn s)) = (Inr existing, c')"
    and s1: "s1 = s\<lparr>conn := (conn s)\<lparr>cur := c'\<rparr>\<rparr>"
    by (rule execute_cases)
  from c' have "db c' = db (cur (conn s))" by (rule select_model_id_db)
  with s1 have p: "pending s1 = db (cur (conn s))" by (simp add: pending_def)
  from select_model_none [OF c' [unfolded None]]
  have "name = PNone \<or> (\<exists>n. name = PStr n \<and> (n, cid) \<notin> model_key ` set (models (pending s1)))"
    by (simp add: p)
  with ins [unfolded None option.case] row show ?thesis by (rule insert_new_model_advances)
qed

lemma import_row_body_raised:
  assumes "import_row_body idx row s = (Inl e, s')"
  shows "advances s s'"
  using assms unfolding import_row_body_def
proof (cases rule: and_then_cases)
  case (raised e1)
  from raised(1) have "s' = s" by (rule getitem_state)
  then show ?thesis by (simp add: advances_refl)
next
  case c0: (returned company_name t0)
  from c0(1) have t0: "t0 = s" by (rule getitem_state)
  from c0(2) [unfolded t0] show ?thesis
  proof (cases rule: and_then_cases)
    case (raised e1)
    then show ?thesis by (simp add: get_or_create_company_advances)
  next
    case c1: (returned company_id s1)
    from c1(1) have a1: "advances s s1" by (rule get_or_create_company_advances)
    from c1(2) have "advances s1 s'"
    proof (cases rule: and_then_cases)
      case (raised e1)
      from raised(1) have "s' = s1" by (rule getitem_state)
      then show ?thesis by (simp add: advances_refl)
    next
      case p0: (returned processor_name t1)
      from p0(1) have t1: "t1 = s1" by (rule getitem_state)
      from p0(2) [unfolded t1] show ?thesis
      proof (cases rule: and_then_cases)
        case (raised e1)
        then show ?thesis by (simp add: get_or_create_processor_advances)
      next
        case p1: (returned processor_id s2)
        from p1(1) have a2: "advances s1 s2" by (rule get_or_create_processor_advances)
        from p1(2) have "advances s2 s'"
        proof (cases rule: and_then_cases)
          case (raised e1)
          from raised(1) have "s' = s2" by (rule getitem_state)
          then show ?thesis by (simp add: advances_refl)
        next
          case n0: (returned name t2)
          from n0(1) have t2: "t2 = s2" and row: "row ''Model Name'' = Some name"
            by (rule getitem_state, rule getitem_value)
          from n0(2) [unfolded t2] show ?thesis
          proof (cases rule: and_then_cases)
            case (raised e1)
            then show ?thesis by (simp add: execute_select_model)
          next
            case m0: (returned existing s3)
            from m0(1) have a3: "advances s2 s3" by (rule execute_select_model)
            from m0(2) have "advances s3 s'"
            proof (cases rule: and_then_cases)
              case (raised e1)
              from model_step_advances [OF m0(1) raised(1) row] show ?thesis .
            next
              case m1: (returned model_id s4)
              from model_step_advances [OF m0(1) m1(1) row] have a4: "advances s3 s4" .
              from m1(2) have "advances s4 s'"
              proof (cases rule: and_then_cases)
                case (raised e1)
                then show ?thesis by (simp add: import_prices_advances)
              next
                case pr: (returned u s5)
                then show ?thesis by (cases "(idx + 1) mod 100 = 0") (simp_all add: ret_def)
              qed
              with a4 show ?thesis by (rule advances_trans)
            qed
            with a3 show ?thesis by (rule advances_trans)
          qed
        qed
        with a2 show ?thesis by (rule advances_trans)
      qed
    qed
    with a1 show ?thesis by (rule advances_trans)
  qed
qed

lemma import_row_body_returned:
  assumes "import_row_body idx row s = (Inr u, s')"
  shows "\<exists>t. advances s t \<and> (s' = t \<or> s' = t\<lparr>conn := commit (conn t)\<rparr>)"
  using assms unfolding import_row_body_def
proof (cases rule: and_then_cases)
  case c0: (returned company_name t0)
  from c0(1) have t0: "t0 = s" by (rule getitem_state)
  from c0(2) [unfolded t0] show ?thesis
  proof (cases rule: and_then_cases)
    case c1: (returned company_id s1)
    from c1(1) have a1: "advances s s1" by (rule get_or_create_company_advances)
    from c1(2) show ?thesis
    proof (cases rule: and_then_cases)
      case p0: (returned processor_name t1)
      from p0(1) have t1: "t1 = s1" by (rule getitem_state)
      from p0(2) [unfolded t1] show ?thesis
      proof (cases rule: and_then_cases)
        case p1: (returned processor_id s2)
        from p1(1) have a2: "advances s1 s2" by (rule get_or_create_processor_advances)
        from p1(2) show ?thesis
        proof (cases rule: and_then_cases)
          case n0: (returned name t2)
          from n0(1) have t2: "t2 = s2" and row: "row ''Model Name'' = Some name"
            by (rule getitem_state, rule getitem_value)
          from n0(2) [unfolded t2] show ?thesis
          proof (cases rule: and_then_cases)
            case m0: (returned existing s3)
            from m0(1) have a3: "advances s2 s3" by (rule execute_select_model)
            from m0(2) show ?thesis
            proof (cases rule: and_then_cases)
              case m1: (returned model_id s4)
              from model_step_advances [OF m0(1) m1(1) row] have a4: "advances s3 s4" .
              from m1(2) show ?thesis
              proof (cases rule: and_then_cases)
                case pr: (returned u s5)
                from pr(1) have a5: "advances s4 s5" by (rule import_prices_advances)
                from a1 a2 a3 a4 a5 have "advances s s5" by (blast intro: advances_trans)
                moreover from pr(2) have "s' = s5 \<or> s' = s5\<lparr>conn := commit (conn s5)\<rparr>"
                  by (cases "(idx + 1) mod 100 = 0") (simp_all add: ret_def)
                ultimately show ?thesis by blast
              qed simp
            qed simp
          qed simp
        qed simp
      qed simp
    qed simp
  qed simp
qed simp

text \<open>One turn of the loop over the rows, in its two outcomes.\<close>

lemma import_row_cases:
  obtains (failed) e t where "import_row_body (fst ir) (snd ir) s = (Inl e, t)" "advances s t"
            "import_row s ir = t\<lparr>error_log := error_log t @ [(fst ir, e)], conn := rollback (conn t)\<rparr>"
        | (passed) t where "advances s t"
            "import_row s ir = t \<or> import_row s ir = t\<lparr>conn := commit (conn t)\<rparr>"
proof (cases "import_row_body (fst ir) (snd ir) s")
  case (Pair r t)
  show ?thesis
  proof (cases r)
    case (Inl e)
    with Pair have b: "import_row_body (fst ir) (snd ir) s = (Inl e, t)" by simp
    from b have "advances s t" by (rule import_row_body_raised)
    moreover from b
    have "import_row s ir = t\<lparr>error_log := error_log t @ [(fst ir, e)], conn := rollback (conn t)\<rparr>"
      by (simp add: import_row_def)
    ultimately show ?thesis using b by (rule_tac failed)
  next
    case (Inr u)
    with Pair have b: "import_row_body (fst ir) (snd ir) s = (Inr u, t)" by simp
    from import_row_body_returned [OF b] obtain t' where
      t': "advances s t'" "t = t' \<or> t = t'\<lparr>conn := commit (conn t')\<rparr>"
      by blast
    from b have "import_row s ir = t" by (simp add: import_row_def)
    with t' show ?thesis by (rule_tac passed) simp_all
  qed
qed

lemma import_row_caches: "caches_grow s (import_row s ir)"
proof (cases rule: import_row_cases [of ir s])
  case (failed e t)
  from failed(2) have "caches_grow s t" by (simp add: advances_def)
  with failed(3) show ?thesis by (simp add: caches_grow_def)
next
  case (passed t)
  from passed(1) have "caches_grow s t" by (simp add: advances_def)
  with passed(2) show ?thesis by (auto simp: caches_grow_def)
qed

lemma import_row_counters: "counters_grow s (import_row s ir)"
proof (cases rule: import_row_cases [of ir s])
  case (failed e t)
  from failed(2) have "counters_grow s t" by (simp add: advances_def)
  with failed(3) show ?thesis by (simp add: counters_grow_def)
next
  case (passed t)
  from passed(1) have "counters_grow s t" by (simp add: advances_def)
  with passed(2) show ?thesis by (auto simp: counters_grow_def)
qed

lemma import_row_region_cache: "region_cache (import_row s ir) = region_cache s"
proof (cases rule: import_row_cases [of ir s])
  case (failed e t)
  from failed(2) have "region_cache t = region_cache s" by (simp add: advances_def)
  with failed(3) show ?thesis by simp
next
  case (passed t)
  from passed(1) have "region_cache t = region_cache s" by (simp add: advances_def)
  with passed(2) show ?thesis by auto
qed

lemma import_row_tables:
  assumes "pending_extends_durable s"
  shows "pending_extends_durable (import_row s ir) \<and>
         only_net_new (durable s) (durable (import_row s ir))"
proof (cases rule: import_row_cases [of ir s])
  case (failed e t)
  from failed(2) have "durable t = durable s" by (simp add: advances_def)
  with failed(3) have "durable (import_row s ir) = durable s" "pending (import_row s ir) = durable s"
    by (simp_all add: durable_def pending_def rollback_def)
  then show ?thesis by (simp add: pending_extends_durable_def only_net_new_refl)
next
  case (passed t)
  from passed(1) have d: "durable t = durable s" and p: "only_net_new (pending s) (pending t)"
    by (simp_all add: advances_def)
  from assms p have dp: "only_net_new (durable s) (pending t)"
    unfolding pending_extends_durable_def by (rule only_net_new_trans)
  from passed(2) show ?thesis
  proof
    assume "import_row s ir = t"
    with d dp show ?thesis by (simp add: pending_extends_durable_def only_net_new_refl)
  next
    assume "import_row s ir = t\<lparr>conn := commit (conn t)\<rparr>"
    then have "durable (import_row s ir) = pending t" "pending (import_row s ir) = pending t"
      by (simp_all add: durable_def pending_def commit_def)
    with dp show ?thesis by (simp add: pending_extends_durable_def only_net_new_refl)
  qed
qed

text \<open>The whole loop, by induction on the rows that are left.\<close>

lemma foldl_import_row_caches: "caches_grow s (foldl import_row s irs)"
proof (induction irs arbitrary: s)
  case Nil
  show ?case by (simp add: caches_grow_refl)
next
  case (Cons ir irs)
  from import_row_caches Cons.IH have "caches_grow s (foldl import_row (import_row s ir) irs)"
    by (rule caches_grow_trans)
  then show ?case by simp
qed

lemma foldl_import_row_counters: "counters_grow s (foldl import_row s irs)"
proof (induction irs arbitrary: s)
  case Nil
  show ?case by (simp add: counters_grow_refl)
next
  case (Cons ir irs)
  from import_row_counters Cons.IH have "counters_grow s (foldl import_row (import_row s ir) irs)"
    by (rule counters_grow_trans)
  then show ?case by simp
qed

lemma foldl_import_row_tables:
  "pending_extends_durable s \<Longrightarrow>
   pending_extends_durable (foldl import_row s irs) \<and>
   only_net_new (durable s) (durable (foldl import_row s irs))"
proof (induction irs arbitrary: s)
  case Nil
  then show ?case by (simp add: only_net_new_refl)
next
  case (Cons ir irs)
  from import_row_tables [OF Cons.prems]
  have 1: "pending_extends_durable (import_row s ir)"
    and 2: "only_net_new (durable s) (durable (import_row s ir))"
    by blast+
  from Cons.IH [OF 1]
  have 3: "pending_extends_durable (foldl import_row (import_row s ir) irs)"
    and 4: "only_net_new (durable (import_row s ir)) (durable (foldl import_row (import_row s ir) irs))"
    by blast+
  from 2 4 have "only_net_new (durable s) (durable (foldl import_row (import_row s ir) irs))"
    by (rule only_net_new_trans)
  with 3 show ?case by simp
qed

lemma import_rows_caches: "caches_grow s (import_rows k rows s)"
  unfolding import_rows_def by (rule foldl_import_row_caches)

lemma import_rows_counters: "counters_grow s (import_rows k rows s)"
  unfolding import_rows_def by (rule foldl_import_row_counters)

lemma import_rows_tables:
  "pending_extends_durable s \<Longrightarrow>
   pending_extends_durable (import_rows k rows s) \<and>
   only_net_new (durable s) (durable (import_rows k rows s))"
  unfolding import_rows_def by (rule foldl_import_row_tables)

lemma load_regions_frame:
  assumes "load_regions s = (r, s')"
  shows "company_cache s' = company_cache s \<and> processor_cache s' = processor_cache s \<and>
         durable s' = durable s \<and> pending s' = pending s"
  using assms unfolding load_regions_def
proof (cases rule: and_then_cases)
  case (raised e)
  from raised(1) show ?thesis
    by (cases rule: execute_cases) (simp add: durable_def pending_def select_regions_db)
next
  case (returned rows s1)
  from returned(1) have "company_cache s1 = company_cache s \<and>
      processor_cache s1 = processor_cache s \<and> durable s1 = durable s \<and> pending s1 = pending s"
    by (cases rule: execute_cases) (simp add: durable_def pending_def select_regions_db)
  with returned(2) show ?thesis by (auto simp: durable_def pending_def)
qed

lemma import_data_cases:
  assumes "import_data rows s = (r, s')"
  obtains (raised) e where "load_regions s = (Inl e, s')" "r = Inl e"
        | (returned) s1 s2 where "load_regions s = (Inr (), s1)" "r = Inr ()"
            "s2 = import_rows 0 rows (s1\<lparr>models_count := 0, prices_count := 0\<rparr>)"
            "s' = s2\<lparr>conn := commit (conn s2)\<rparr>"
  using assms unfolding import_data_def
proof (cases rule: and_then_cases)
  case (raised e)
  then show ?thesis by (rule that(1))
next
  case (returned u s1)
  from returned(2) have "r = Inr ()"
    and "s' = (import_rows 0 rows (s1\<lparr>models_count := 0, prices_count := 0\<rparr>))
          \<lparr>conn := commit (conn (import_rows 0 rows (s1\<lparr>models_count := 0, prices_count := 0\<rparr>)))\<rparr>"
    by (simp_all add: Let_def)
  with returned(1) show ?thesis by (rule_tac that(2)) simp_all
qed

lemma import_data_tables:
  assumes "import_data rows s = (r, s')" "clean (conn s)"
  shows "only_net_new (durable s) (durable s')"
  using assms(1)
proof (cases rule: import_data_cases)
  case (raised e)
  from load_regions_frame [OF raised(1)] show ?thesis by (simp add: only_net_new_refl)
next
  case (returned s1 s2)
  let ?s = "s1\<lparr>models_count := 0, prices_count := 0\<rparr>"
  from load_regions_frame [OF returned(1)] assms(2)
  have d: "durable ?s = durable s" and p: "pending ?s = durable s"
    by (simp_all add: durable_def pending_def clean_def)
  then have "pending_extends_durable ?s" by (simp add: pending_extends_durable_def only_net_new_refl)
  from import_rows_tables [OF this, of 0 rows] returned(3)
  have "only_net_new (durable s) (pending s2)"
    unfolding pending_extends_durable_def d by (blast intro: only_net_new_trans)
  moreover from returned(4) have "durable s' = pending s2"
    by (simp add: durable_def pending_def commit_def)
  ultimately show ?thesis by simp
qed

section \<open>Claims about the importer\<close>

lemma map_le_lookup: "m \<subseteq>\<^sub>m m' \<Longrightarrow> m k = Some v \<Longrightarrow> m' k = Some v"
  by (metis domI map_le_def)

lemma pair_of_fst: "fst p = a \<Longrightarrow> p = (a, snd p)"
  by (cases p) simp

lemma import_row_raised:
  assumes "import_row_body idx row st = (Inl e, st1)"
  shows "import_row st (idx, row) =
           st1\<lparr>error_log := error_log st1 @ [(idx, e)], conn := rollback (conn st1)\<rparr>"
  using assms by (simp add: import_row_def)

lemma rollback_keeps:
  assumes "import_row_body idx row st = (Inl e, st1)"
  shows "company_cache (import_row st (idx, row)) = company_cache st1"
    and "processor_cache (import_row st (idx, row)) = processor_cache st1"
    and "models_count (import_row st (idx, row)) = models_count st1"
    and "prices_count (import_row st (idx, row)) = prices_count st1"
    and "pending (import_row st (idx, row)) = durable st"
    and "durable (import_row st (idx, row)) = durable st"
proof -
  from assms have "advances st st1" by (rule import_row_body_raised)
  then have "durable st1 = durable st" by (simp add: advances_def)
  then show "pending (import_row st (idx, row)) = durable st"
    and "durable (import_row st (idx, row)) = durable st"
    by (simp_all add: import_row_raised [OF assms] pending_def durable_def rollback_def)
qed (simp_all add: import_row_raised [OF assms])

text \<open>The run of the two listings on the seeded store, evaluated once.\<close>

lemma two_listings_run:
  "fst (import_data [good_row, bad_row] (new_importer fresh_connection)) = Inr ()"
  "error_log (snd (import_data [good_row, bad_row] (new_importer fresh_connection))) =
     [(1, ValueError)]"
  "durable (snd (import_data [good_row, bad_row] (new_importer fresh_connection))) = seeded_db"
  "pending (snd (import_data [good_row, bad_row] (new_importer fresh_connection))) = seeded_db"
  "models_count (snd (import_data [good_row, bad_row] (new_importer fresh_connection))) = 1"
  "prices_count (snd (import_data [good_row, bad_row] (new_importer fresh_connection))) = 1"
  "company_cache (snd (import_data [good_row, bad_row] (new_importer fresh_connection)))
     (PStr ''Acme'') = Some 1"
  "processor_cache (snd (import_data [good_row, bad_row] (new_importer fresh_connection)))
     (PStr ''Chip1'') = Some 1"
  by (simp_all add: store_eval parse_eval import_eval facade_eval durable_def pending_def)

lemma seeded_db_tables:
  "companies seeded_db = []" "processors seeded_db = []" "models seeded_db = []"
  "prices seeded_db = []"
  by (simp_all add: seeded_db_def)

text \<open>
  Claim C1 fails on the code.  The handler calls \<open>rollback\<close> on the connection, and
  the connection has one transaction that holds every row since the last commit.  The
  first listing alone is imported and committed.  When a listing with a launch year
  that is no number follows it, the run still completes and logs that row, but the
  rollback has discarded the first listing with it: the durable store is the seeded
  one, with no company, no processor, no model and no price.
\<close>

theorem failed_row_discards_earlier_rows:
  "fst (import_data [good_row] (new_importer fresh_connection)) = Inr () \<and>
   map m_name (models (durable (snd (import_data [good_row] (new_importer fresh_connection))))) =
     [''X1''] \<and>
   fst (import_data [good_row, bad_row] (new_importer fresh_connection)) = Inr () \<and>
   error_log (snd (import_data [good_row, bad_row] (new_importer fresh_connection))) =
     [(1, ValueError)] \<and>
   durable (snd (import_data [good_row, bad_row] (new_importer fresh_connection))) = seeded_db \<and>
   models seeded_db = []"
proof -
  have "fst (import_data [good_row] (new_importer fresh_connection)) = Inr ()"
    and "map m_name (models (durable (snd (import_data [good_row] (new_importer fresh_connection))))) =
     [''X1'']"
    by (simp_all add: store_eval parse_eval import_eval facade_eval durable_def)
  then show ?thesis by (simp add: two_listings_run seeded_db_tables)
qed

text \<open>
  Claim C5.  When a company name has been resolved, resolving the same name again,
  at once or after any further rows of the run, returns the same identity and leaves
  the importer exactly as it is: no statement is executed.  The same holds for a
  processor name, whether it resolved to an identity or to no processor.  A processor
  name that is null or empty resolves to no processor and leaves the importer as it is.
\<close>

theorem resolution_is_cached:
  "(get_or_create_company name st = (Inr cid, st1) \<longrightarrow>
      get_or_create_company name st1 = (Inr cid, st1) \<and>
      get_or_create_company name (import_rows k rows st1) = (Inr cid, import_rows k rows st1)) \<and>
   (get_or_create_processor name st = (Inr p, st2) \<longrightarrow>
      get_or_create_processor name st2 = (Inr p, st2) \<and>
      get_or_create_processor name (import_rows k rows st2) = (Inr p, import_rows k rows st2)) \<and>
   (isna name \<or> name = PStr [] \<longrightarrow> get_or_create_processor name st = (Inr None, st))"
proof (intro conjI impI)
  assume a: "get_or_create_company name st = (Inr cid, st1)"
  then have c: "company_cache st1 name = Some cid" by (rule get_or_create_company_cached)
  then show "get_or_create_company name st1 = (Inr cid, st1)"
    by (rule get_or_create_company_hit)
  from import_rows_caches [of st1 k rows] c
  have "company_cache (import_rows k rows st1) name = Some cid"
    unfolding caches_grow_def by (blast intro: map_le_lookup)
  then show "get_or_create_company name (import_rows k rows st1) = (Inr cid, import_rows k rows st1)"
    by (rule get_or_create_company_hit)
next
  assume a: "get_or_create_processor name st = (Inr p, st2)"
  have "get_or_create_processor name st2 = (Inr p, st2) \<and>
        get_or_create_processor name (import_rows k rows st2) = (Inr p, import_rows k rows st2)"
  proof (cases p)
    case None
    with a have "isna name \<or> name = PStr []" by (simp add: get_or_create_processor_none)
    with None show ?thesis by (simp add: get_or_create_processor_null)
  next
    case (Some pid)
    with a have c: "processor_cache st2 name = Some pid" and n: "\<not> isna name" "name \<noteq> PStr []"
      using get_or_create_processor_cached by blast+
    from import_rows_caches [of st2 k rows] c
    have "processor_cache (import_rows k rows st2) name = Some pid"
      unfolding caches_grow_def by (blast intro: map_le_lookup)
    with c n Some show ?thesis by (simp add: get_or_create_processor_hit)
  qed
  then show "get_or_create_processor name st2 = (Inr p, st2)"
    and "get_or_create_processor name (import_rows k rows st2) = (Inr p, import_rows k rows st2)"
    by blast+
next
  assume "isna name \<or> name = PStr []"
  then show "get_or_create_processor name st = (Inr None, st)"
    by (rule get_or_create_processor_null)
qed

theorem resolution_is_cached_witness:
  "fst (get_or_create_company (PStr ''Acme'') (new_importer fresh_connection)) = Inr 1 \<and>
   executed (cur (conn (snd (get_or_create_company (PStr ''Acme'') (new_importer fresh_connection))))) = 2 \<and>
   get_or_create_company (PStr ''Acme'')
     (snd (get_or_create_company (PStr ''Acme'') (new_importer fresh_connection))) =
     (Inr 1, snd (get_or_create_company (PStr ''Acme'') (new_importer fresh_connection))) \<and>
   fst (get_or_create_processor (PStr ''Chip1'') (new_importer fresh_connection)) = Inr (Some 1) \<and>
   get_or_create_processor (PStr ''Chip1'')
     (import_rows 0 [bad_row]
        (snd (get_or_create_processor (PStr ''Chip1'') (new_importer fresh_connection)))) =
     (Inr (Some 1),
      import_rows 0 [bad_row]
        (snd (get_or_create_processor (PStr ''Chip1'') (new_importer fresh_connection)))) \<and>
   isna PNaN \<and>
   get_or_create_processor PNaN (new_importer fresh_connection) =
     (Inr None, new_importer fresh_connection)"
proof -
  let ?s = "new_importer fresh_connection"
  have c: "fst (get_or_create_company (PStr ''Acme'') ?s) = Inr 1"
    and x: "executed (cur (conn (snd (get_or_create_company (PStr ''Acme'') ?s)))) = 2"
    and p: "fst (get_or_create_processor (PStr ''Chip1'') ?s) = Inr (Some 1)"
    by (simp_all add: store_eval import_eval facade_eval isna_def)
  have n: "isna PNaN" by (simp add: isna_def)
  from resolution_is_cached [where name = "PStr ''Acme''" and st = ?s and cid = 1
      and ?st1.0 = "snd (get_or_create_company (PStr ''Acme'') ?s)"] pair_of_fst [OF c]
  have 1: "get_or_create_company (PStr ''Acme'') (snd (get_or_create_company (PStr ''Acme'') ?s)) =
     (Inr 1, snd (get_or_create_company (PStr ''Acme'') ?s))"
    by blast
  from resolution_is_cached [where name = "PStr ''Chip1''" and st = ?s and p = "Some 1"
      and ?st2.0 = "snd (get_or_create_processor (PStr ''Chip1'') ?s)" and k = 0
      and rows = "[bad_row]"] pair_of_fst [OF p]
  have 2: "get_or_create_processor (PStr ''Chip1'')
     (import_rows 0 [bad_row] (snd (get_or_create_processor (PStr ''Chip1'') ?s))) =
     (Inr (Some 1), import_rows 0 [bad_row] (snd (get_or_create_processor (PStr ''Chip1'') ?s)))"
    by blast
  from resolution_is_cached [where name = PNaN and st = ?s] n
  have 3: "get_or_create_processor PNaN ?s = (Inr None, ?s)" by blast
  from c x p n 1 2 3 show ?thesis by blast
qed

text \<open>
  Claim C7.  The \<open>try\<close> block of a row only adds net-new rows to the pending tables:
  every model row and every price row that was there is still there, unchanged and at
  its place, and every row added has a (name, company) key, respectively a (model,
  region) key, that no row had before; so a listing whose model exists adds no model
  and changes none, and a pair that has a price keeps its amount.  Over the whole loop
  and over \<open>import_data\<close> the same holds for the durable tables: the import leaves every
  durable model and price as it is and commits only net-new ones.
\<close>

theorem import_writes_only_net_new:
  "(import_row_body idx row st = (r, st') \<longrightarrow> only_net_new (pending st) (pending st')) \<and>
   (pending_extends_durable st \<longrightarrow>
      only_net_new (durable st) (durable (import_rows k rows st)) \<and>
      pending_extends_durable (import_rows k rows st)) \<and>
   (clean (conn st) \<and> import_data rows st = (r', st'') \<longrightarrow>
      only_net_new (durable st) (durable st''))"
proof (intro conjI impI)
  assume b: "import_row_body idx row st = (r, st')"
  show "only_net_new (pending st) (pending st')"
  proof (cases r)
    case (Inl e)
    with b have "advances st st'" by (simp add: import_row_body_raised)
    then show ?thesis by (simp add: advances_def)
  next
    case (Inr u)
    with b obtain t where "advances st t" "st' = t \<or> st' = t\<lparr>conn := commit (conn t)\<rparr>"
      using import_row_body_returned by blast
    then show ?thesis by (auto simp: advances_def pending_def commit_def)
  qed
next
  assume "pending_extends_durable st"
  from import_rows_tables [OF this]
  show "only_net_new (durable st) (durable (import_rows k rows st))"
    and "pending_extends_durable (import_rows k rows st)"
    by blast+
next
  assume "clean (conn st) \<and> import_data rows st = (r', st'')"
  then show "only_net_new (durable st) (durable st'')"
    using import_data_tables by blast
qed

theorem import_writes_only_net_new_witness:
  "clean (conn (new_importer stocked_connection)) \<and>
   pending_extends_durable (new_importer stocked_connection) \<and>
   fst (import_data [good_row, good_row] (new_importer stocked_connection)) = Inr () \<and>
   only_net_new stocked_db
     (durable (snd (import_data [good_row, good_row] (new_importer stocked_connection)))) \<and>
   map m_id (models (durable (snd (import_data [good_row, good_row] (new_importer stocked_connection))))) =
     [1] \<and>
   map p_price (prices (durable (snd (import_data [good_row, good_row] (new_importer stocked_connection))))) =
     [Finite 10000] \<and>
   only_net_new stocked_db (durable (import_rows 0 [good_row] (new_importer stocked_connection))) \<and>
   only_net_new stocked_db
     (pending (snd (import_row_body 0 good_row (new_importer stocked_connection))))"
proof -
  let ?s = "new_importer stocked_connection"
  let ?run = "import_data [good_row, good_row] ?s"
  have d: "durable ?s = stocked_db" "pending ?s = stocked_db"
    by (simp_all add: durable_def pending_def new_importer_def stocked_connection_def)
  have c: "clean (conn ?s)" by (simp add: clean_def new_importer_def stocked_connection_def)
  have e: "pending_extends_durable ?s"
    by (simp add: pending_extends_durable_def d only_net_new_refl)
  have f: "fst ?run = Inr ()"
    and m: "map m_id (models (durable (snd ?run))) = [1]"
    and p: "map p_price (prices (durable (snd ?run))) = [Finite 10000]"
    by (simp_all add: store_eval parse_eval import_eval facade_eval durable_def
        stocked_db_def stocked_connection_def)
  note t = import_writes_only_net_new [where st = ?s]
  from t [where rows = "[good_row, good_row]" and r' = "Inr ()" and st'' = "snd ?run"] c
    pair_of_fst [OF f]
  have 1: "only_net_new stocked_db (durable (snd ?run))" unfolding d by blast
  from t [where k = 0 and rows = "[good_row]"] e
  have 2: "only_net_new stocked_db (durable (import_rows 0 [good_row] ?s))" unfolding d by blast
  from t [where idx = 0 and row = good_row and r = "fst (import_row_body 0 good_row ?s)"
      and st' = "snd (import_row_body 0 good_row ?s)"]
  have 3: "only_net_new stocked_db (pending (snd (import_row_body 0 good_row ?s)))"
    unfolding d by simp
  from c e f m p 1 2 3 show ?thesis by blast
qed

text \<open>
  Claim C8.  The company and processor caches only grow, over one row and over the
  whole loop.  When the \<open>try\<close> block of a row raises, the handler rolls the pending
  tables back to the durable ones and leaves both caches as they were at the raise.
  So after the run of the two listings the cache maps Acme to identity 1 and Chip1 to
  identity 1 while the store has no company and no processor, and a later resolution
  of Acme is handed identity 1 from the cache.
\<close>

theorem caches_only_grow:
  "caches_grow st (import_row st ir) \<and>
   caches_grow st (import_rows k rows st) \<and>
   (import_row_body idx row st = (Inl e, st1) \<longrightarrow>
      company_cache (import_row st (idx, row)) = company_cache st1 \<and>
      processor_cache (import_row st (idx, row)) = processor_cache st1 \<and>
      pending (import_row st (idx, row)) = durable st) \<and>
   company_cache (snd (import_data [good_row, bad_row] (new_importer fresh_connection)))
     (PStr ''Acme'') = Some 1 \<and>
   processor_cache (snd (import_data [good_row, bad_row] (new_importer fresh_connection)))
     (PStr ''Chip1'') = Some 1 \<and>
   companies (pending (snd (import_data [good_row, bad_row] (new_importer fresh_connection)))) = [] \<and>
   processors (pending (snd (import_data [good_row, bad_row] (new_importer fresh_connection)))) = [] \<and>
   get_or_create_company (PStr ''Acme'')
     (snd (import_data [good_row, bad_row] (new_importer fresh_connection))) =
     (Inr 1, snd (import_data [good_row, bad_row] (new_importer fresh_connection)))"
proof (intro conjI impI)
  let ?s = "snd (import_data [good_row, bad_row] (new_importer fresh_connection))"
  show "get_or_create_company (PStr ''Acme'') ?s = (Inr 1, ?s)"
    using two_listings_run(7) by (rule get_or_create_company_hit)
qed (simp_all add: import_row_caches import_rows_caches rollback_keeps two_listings_run
    seeded_db_tables)

theorem caches_only_grow_witness:
  "fst (import_row_body 1 bad_row (new_importer fresh_connection)) = Inl ValueError \<and>
   company_cache (import_row (new_importer fresh_connection) (1, bad_row)) (PStr ''Acme'') = Some 1 \<and>
   pending (import_row (new_importer fresh_connection) (1, bad_row)) = seeded_db \<and>
   caches_grow (new_importer fresh_connection)
     (import_rows 0 [good_row, bad_row] (new_importer fresh_connection))"
proof -
  let ?s = "new_importer fresh_connection"
  have f: "fst (import_row_body 1 bad_row ?s) = Inl ValueError"
    and c: "company_cache (snd (import_row_body 1 bad_row ?s)) (PStr ''Acme'') = Some 1"
    by (simp_all add: store_eval parse_eval import_eval facade_eval)
  have d: "durable ?s = seeded_db"
    by (simp add: durable_def new_importer_def fresh_connection_def)
  note t = caches_only_grow [where st = ?s]
  from t [where idx = 1 and row = bad_row and e = ValueError
      and ?st1.0 = "snd (import_row_body 1 bad_row ?s)"] pair_of_fst [OF f]
  have "company_cache (import_row ?s (1, bad_row)) = company_cache (snd (import_row_body 1 bad_row ?s))"
    and 2: "pending (import_row ?s (1, bad_row)) = seeded_db"
    unfolding d by blast+
  with c have 1: "company_cache (import_row ?s (1, bad_row)) (PStr ''Acme'') = Some 1" by simp
  from t [where k = 0 and rows = "[good_row, bad_row]"]
  have 3: "caches_grow ?s (import_rows 0 [good_row, bad_row] ?s)" by blast
  from f 1 2 3 show ?thesis by blast
qed

text \<open>
  Claim C10.  The counters grow over one row and over the whole loop.  A successful
  model insert adds one to the model counter at once.  When the \<open>try\<close> block raises,
  the handler rolls the pending tables back to the durable ones and leaves both
  counters as they were at the raise.  So the run of the two listings ends with one
  model and one price counted while not a single model or price is in the store.
\<close>

theorem counters_survive_rollback:
  "counters_grow st (import_row st ir) \<and>
   counters_grow st (import_rows k rows st) \<and>
   (insert_new_model row cid pid st = (Inr mid, st2) \<longrightarrow>
      models_count st2 = Suc (models_count st)) \<and>
   (import_row_body idx row st = (Inl e, st1) \<longrightarrow>
      models_count (import_row st (idx, row)) = models_count st1 \<and>
      prices_count (import_row st (idx, row)) = prices_count st1 \<and>
      pending (import_row st (idx, row)) = durable st \<and>
      durable (import_row st (idx, row)) = durable st) \<and>
   fst (import_data [good_row, bad_row] (new_importer fresh_connection)) = Inr () \<and>
   models_count (snd (import_data [good_row, bad_row] (new_importer fresh_connection))) = 1 \<and>
   prices_count (snd (import_data [good_row, bad_row] (new_importer fresh_connection))) = 1 \<and>
   models (durable (snd (import_data [good_row, bad_row] (new_importer fresh_connection)))) = [] \<and>
   prices (durable (snd (import_data [good_row, bad_row] (new_importer fresh_connection)))) = []"
  by (simp add: import_row_counters import_rows_counters rollback_keeps insert_new_model_counts
      two_listings_run seeded_db_tables)

theorem counters_survive_rollback_witness:
  "fst (import_row_body 1 bad_row (import_row (new_importer fresh_connection) (0, good_row))) =
     Inl ValueError \<and>
   models_count (import_row (new_importer fresh_connection) (0, good_row)) = 1 \<and>
   models_count
     (import_row (import_row (new_importer fresh_connection) (0, good_row)) (1, bad_row)) = 1 \<and>
   models (pending
     (import_row (import_row (new_importer fresh_connection) (0, good_row)) (1, bad_row))) = [] \<and>
   counters_grow (new_importer fresh_connection)
     (import_rows 0 [good_row, bad_row] (new_importer fresh_connection))"
proof -
  let ?init = "new_importer fresh_connection"
  let ?s = "import_row ?init (0, good_row)"
  have f: "fst (import_row_body 1 bad_row ?s) = Inl ValueError"
    and m: "models_count ?s = 1"
    and c: "models_count (snd (import_row_body 1 bad_row ?s)) = 1"
    and d: "models (durable ?s) = []"
    by (simp_all add: store_eval parse_eval import_eval facade_eval durable_def)
  from counters_survive_rollback [where st = ?s and idx = 1 and row = bad_row and e = ValueError
      and ?st1.0 = "snd (import_row_body 1 bad_row ?s)"] pair_of_fst [OF f]
  have "models_count (import_row ?s (1, bad_row)) = models_count (snd (import_row_body 1 bad_row ?s))"
    and "pending (import_row ?s (1, bad_row)) = durable ?s"
    by blast+
  with c d have 1: "models_count (import_row ?s (1, bad_row)) = 1"
    and 2: "models (pending (import_row ?s (1, bad_row))) = []"
    by simp_all
  from counters_survive_rollback [where st = ?init and k = 0 and rows = "[good_row, bad_row]"]
  have 3: "counters_grow ?init (import_rows 0 [good_row, bad_row] ?init)" by blast
  from f m 1 2 3 show ?thesis by blast
qed

end
